theory Spec2Isabelle
  imports Complex_Main
begin

section \<open>Data model of the self-healing agent\<close>

text \<open>
  The types of \<open>@/types\<close> as the orchestrator and the components use them.  JavaScript
  numbers that only ever hold counts (attempt numbers, commit counts, line numbers) are
  integers; the elapsed time in seconds is a rational (milliseconds divided by 1000).
  The quotient \<open>bugsFixed / totalBugs\<close> is taken exactly: the IEEE rounding of the
  double division is idealised away.
\<close>

datatype BugCategory = SYNTAX | LINTING | RUNTIME | LOGIC | IMPORT | TYPE_BUG | DEPENDENCY

datatype HealingStatus =
  cloning | scanning | testing | fixing | pushing | completed | partial_success | failed

record HealingBug =
  bug_id :: string
  category :: BugCategory
  filePath :: string
  line :: int
  message :: string
  severity :: string
  fixed :: bool
  fixedAtAttempt :: "nat option"

record HealingScore =
  totalBugs :: int
  bugsFixed :: int
  testsPassed :: bool
  attempts_used :: int
  totalCommits :: int
  timeSeconds :: int
  speedBonus :: int
  commitPenalty :: int
  finalScore :: int

section \<open>Scoring (orchestrator, \<open>calculateScore\<close>)\<close>

definition SPEED_BONUS_THRESHOLD_SEC :: rat where
  "SPEED_BONUS_THRESHOLD_SEC = 300"

definition MAX_COMMITS_PENALTY_THRESHOLD :: int where
  "MAX_COMMITS_PENALTY_THRESHOLD = 20"

text \<open>\<open>Math.round\<close>: the nearest integer, a tie going up.\<close>

definition Math_round :: "rat \<Rightarrow> int" where
  "Math_round x = \<lfloor>x + 1 / 2\<rfloor>"

text \<open>
  \<open>calculateScore\<close> is the same text in both orchestrator variants.  The successive
  updates of \<open>baseScore\<close> are successive bindings here.
\<close>

definition calculateScore ::
  "HealingBug list \<Rightarrow> bool \<Rightarrow> int \<Rightarrow> int \<Rightarrow> rat \<Rightarrow> HealingScore" where
  "calculateScore bugs tests_passed attempts commits time_seconds =
     (let n_total = int (length bugs);
          n_fixed = int (length (filter fixed bugs));
          baseScore0 = (if n_total > 0
                        then Math_round ((of_int n_fixed / of_int n_total) * 60) else 0);
          baseScore1 = (if tests_passed then baseScore0 + 20 else baseScore0);
          baseScore = (if attempts \<le> 2 then baseScore1 + 10
                       else if attempts \<le> 3 then baseScore1 + 5 else baseScore1);
          speed = (if time_seconds < SPEED_BONUS_THRESHOLD_SEC then 10 else 0);
          penalty = (if commits > MAX_COMMITS_PENALTY_THRESHOLD
                     then commits - MAX_COMMITS_PENALTY_THRESHOLD else 0);
          final = max 0 (min 100 (baseScore + speed - penalty))
      in \<lparr> totalBugs = n_total, bugsFixed = n_fixed, testsPassed = tests_passed,
           attempts_used = attempts, totalCommits = commits,
           timeSeconds = Math_round time_seconds, speedBonus = speed,
           commitPenalty = penalty, finalScore = final \<rparr>)"

subsection \<open>The scoring formula as the specification words it\<close>

definition spec_clamp :: "int \<Rightarrow> int \<Rightarrow> int \<Rightarrow> int" where
  "spec_clamp x lo hi = (if x < lo then lo else if hi < x then hi else x)"

definition spec_base :: "int \<Rightarrow> int \<Rightarrow> bool \<Rightarrow> int \<Rightarrow> int" where
  "spec_base n_fixed n_total tests_passed attempts =
     (if n_total = 0 then 0 else round ((of_int n_fixed / of_int n_total :: rat) * 60))
     + (if tests_passed then 20 else 0)
     + (if attempts \<le> 2 then 10 else if attempts \<le> 3 then 5 else 0)"

definition spec_speedBonus :: "rat \<Rightarrow> int" where
  "spec_speedBonus elapsed = (if elapsed < 300 then 10 else 0)"

definition spec_commitPenalty :: "int \<Rightarrow> int" where
  "spec_commitPenalty commits = max 0 (commits - 20)"

definition spec_final :: "int \<Rightarrow> int \<Rightarrow> bool \<Rightarrow> int \<Rightarrow> int \<Rightarrow> rat \<Rightarrow> int" where
  "spec_final n_fixed n_total tests_passed attempts commits elapsed =
     spec_clamp (spec_base n_fixed n_total tests_passed attempts
                 + spec_speedBonus elapsed - spec_commitPenalty commits) 0 100"

section \<open>Repository manager: names and the sandbox\<close>

definition lower_letters :: string where
  "lower_letters = ''abcdefghijklmnopqrstuvwxyz''"

definition upper_letters :: string where
  "upper_letters = ''ABCDEFGHIJKLMNOPQRSTUVWXYZ''"

definition digit_chars :: string where
  "digit_chars = ''0123456789''"

text \<open>
  The names that \<open>getHealingBranchName\<close> works on are JavaScript strings in full.  A name
  is the list of its Unicode code points, which are integers (none is negative), a
  surrogate pair being one code point and a lone surrogate a code point of its own; an
  ASCII literal is read with \<open>js\<close>.
\<close>

type_synonym js_string = "int list"

definition js :: "string \<Rightarrow> js_string" where
  "js s = map of_char s"

text \<open>
  \<open>toUpperCase\<close> maps every code point by the upper-case mapping of the Unicode standard,
  which may give several code points (U+00DF gives \<open>SS\<close>).  On ASCII the mapping is that
  of the 26 letters.  Beyond ASCII it is the table of the standard, which is not part of
  the sources: it is the parameter \<open>unicode_upper\<close>.
\<close>

definition toUpperCase_cp :: "(int \<Rightarrow> js_string) \<Rightarrow> int \<Rightarrow> js_string" where
  "toUpperCase_cp unicode_upper c =
     (if of_char CHR ''a'' \<le> c \<and> c \<le> of_char CHR ''z'' then [c - 32]
      else if c < 128 then [c]
      else unicode_upper c)"

definition toUpperCase :: "(int \<Rightarrow> js_string) \<Rightarrow> js_string \<Rightarrow> js_string" where
  "toUpperCase unicode_upper s = concat (map (toUpperCase_cp unicode_upper) s)"

text \<open>
  The class \<open>\s\<close> of a regular expression: the white space and the line terminators of
  ECMAScript (tab, line feed, vertical tab, form feed, carriage return, space, no-break
  space, the space separators U+1680, U+2000 to U+200A, U+202F, U+205F and U+3000, the
  separators U+2028 and U+2029, and U+FEFF).
\<close>

definition is_space :: "int \<Rightarrow> bool" where
  "is_space c =
     (c \<in> set [0x09, 0x0A, 0x0B, 0x0C, 0x0D, 0x20, 0xA0, 0x1680, 0x2028, 0x2029, 0x202F,
               0x205F, 0x3000, 0xFEFF]
      \<or> (0x2000 \<le> c \<and> c \<le> 0x200A))"

text \<open>\<open>.replace(/\s+/g, "_")\<close>: every maximal run of white space becomes one underscore.\<close>

function replace_space_runs :: "js_string \<Rightarrow> js_string" where
  "replace_space_runs [] = []"
| "replace_space_runs (c # cs) =
     (if is_space c then of_char CHR ''_'' # replace_space_runs (dropWhile is_space cs)
      else c # replace_space_runs cs)"
  by pat_completeness auto
termination
  by (relation "measure length") (auto simp: length_dropWhile_le less_Suc_eq_le)

text \<open>
  \<open>.replace(/[^A-Z0-9_]/g, "")\<close>: only \<open>A-Z\<close>, \<open>0-9\<close> and the underscore survive.  The
  expression has no \<open>u\<close> flag and removes a code point beyond the basic plane as its two
  code units.
\<close>

definition is_branch_char :: "int \<Rightarrow> bool" where
  "is_branch_char c =
     ((of_char CHR ''A'' \<le> c \<and> c \<le> of_char CHR ''Z'')
      \<or> (of_char CHR ''0'' \<le> c \<and> c \<le> of_char CHR ''9'')
      \<or> c = of_char CHR ''_'')"

definition strip_non_branch :: "js_string \<Rightarrow> js_string" where
  "strip_non_branch s = filter is_branch_char s"

definition BRANCH_SUFFIX :: string where
  "BRANCH_SUFFIX = ''AI_Fix''"

definition normalize_name :: "(int \<Rightarrow> js_string) \<Rightarrow> js_string \<Rightarrow> js_string" where
  "normalize_name unicode_upper name =
     strip_non_branch (replace_space_runs (toUpperCase unicode_upper name))"

definition getHealingBranchName ::
  "(int \<Rightarrow> js_string) \<Rightarrow> js_string \<Rightarrow> js_string \<Rightarrow> js_string" where
  "getHealingBranchName unicode_upper teamName leaderName =
     normalize_name unicode_upper teamName @ js ''_'' @ normalize_name unicode_upper leaderName
       @ js ''_'' @ js BRANCH_SUFFIX"

text \<open>
  \<open>path.join\<close> of the POSIX \<open>path\<close> module (the platform is not \<open>win32\<close>): the non-empty
  arguments are joined with a slash and the result is normalised.  Normalisation works
  on the segments between slashes: an empty segment and \<open>.\<close> are dropped, \<open>..\<close> removes the
  segment before it (and is kept only in a relative path that has nothing left to
  remove); a trailing slash is kept.
\<close>

fun split_path :: "string \<Rightarrow> string list" where
  "split_path [] = [[]]"
| "split_path (c # cs) =
     (if c = CHR ''/'' then [] # split_path cs
      else (case split_path cs of
              seg # segs \<Rightarrow> (c # seg) # segs
            | [] \<Rightarrow> [[c]]))"

fun join_segments :: "string list \<Rightarrow> string" where
  "join_segments [] = []"
| "join_segments [seg] = seg"
| "join_segments (seg # segs) = seg @ ''/'' @ join_segments segs"

fun normalizeString :: "bool \<Rightarrow> string list \<Rightarrow> string list \<Rightarrow> string list" where
  "normalizeString allowAboveRoot res [] = res"
| "normalizeString allowAboveRoot res (seg # segs) =
     (if seg = [] \<or> seg = ''.'' then normalizeString allowAboveRoot res segs
      else if seg = ''..'' then
        (if res \<noteq> [] \<and> last res \<noteq> ''..''
         then normalizeString allowAboveRoot (butlast res) segs
         else if allowAboveRoot then normalizeString allowAboveRoot (res @ [''..'']) segs
         else normalizeString allowAboveRoot res segs)
      else normalizeString allowAboveRoot (res @ [seg]) segs)"

definition path_normalize :: "string \<Rightarrow> string" where
  "path_normalize p =
     (if p = [] then ''.''
      else
        (let isAbsolute = (hd p = CHR ''/'');
             trailingSeparator = (last p = CHR ''/'');
             body = join_segments (normalizeString (\<not> isAbsolute) [] (split_path p))
         in if body = [] then (if isAbsolute then ''/'' else if trailingSeparator then ''./'' else ''.'')
            else (if isAbsolute then ''/'' else []) @ body @ (if trailingSeparator then ''/'' else [])))"

definition path_join :: "string \<Rightarrow> string \<Rightarrow> string" where
  "path_join a b =
     (if a = [] \<and> b = [] then ''.''
      else if a = [] then path_normalize b
      else if b = [] then path_normalize a
      else path_normalize (a @ ''/'' @ b))"

text \<open>
  The file system is the set of directories that exist; a sandbox directory stands for
  its whole tree.  \<open>rmSync(dir, {recursive, force})\<close> removes the tree.
\<close>

type_synonym filesystem = "string set"

definition SANDBOX_BASE :: string where
  "SANDBOX_BASE = ''/tmp/self-healing''"

definition getSandboxDir :: "string \<Rightarrow> string" where
  "getSandboxDir sessionId = path_join SANDBOX_BASE sessionId"

definition existsSync :: "string \<Rightarrow> filesystem \<Rightarrow> bool" where
  "existsSync p fs = (p \<in> fs)"

definition rmSync :: "string \<Rightarrow> filesystem \<Rightarrow> filesystem" where
  "rmSync p fs = fs - {p}"

definition cleanupSandbox :: "string \<Rightarrow> filesystem \<Rightarrow> filesystem" where
  "cleanupSandbox sessionId fs =
     (let sandboxDir = getSandboxDir sessionId
      in if existsSync sandboxDir fs then rmSync sandboxDir fs else fs)"

section \<open>Repository manager: \<open>parseGitHubUrl\<close>\<close>

text \<open>
  The two regular expressions are not anchored at the start, so \<open>url.match\<close> tries every
  start position from the left and returns the first match.  At one position:
  the literal \<open>github.com/\<close>; the owner \<open>[^/]+\<close>, which must be followed by a slash and
  therefore is the whole run of non-slash characters; then the repository name, matched
  lazily one character at a time until the rest of the pattern reaches the end of the
  string.
\<close>

definition starts_with :: "string \<Rightarrow> string \<Rightarrow> bool" where
  "starts_with s p = (take (length p) s = p)"

text \<open>\<open>([^/.]+?)(?:\.git)?$\<close>, the name so far in the accumulator.\<close>

fun lazy_repo_git :: "string \<Rightarrow> string \<Rightarrow> string option" where
  "lazy_repo_git acc rest =
     (if acc \<noteq> [] \<and> (rest = ''.git'' \<or> rest = []) then Some acc
      else (case rest of
              [] \<Rightarrow> None
            | c # cs \<Rightarrow> if c \<noteq> CHR ''/'' \<and> c \<noteq> CHR ''.'' then lazy_repo_git (acc @ [c]) cs
                        else None))"

text \<open>\<open>([^/]+?)\/?$\<close>, the name so far in the accumulator.\<close>

fun lazy_repo_slash :: "string \<Rightarrow> string \<Rightarrow> string option" where
  "lazy_repo_slash acc rest =
     (if acc \<noteq> [] \<and> (rest = ''/'' \<or> rest = []) then Some acc
      else (case rest of
              [] \<Rightarrow> None
            | c # cs \<Rightarrow> if c \<noteq> CHR ''/'' then lazy_repo_slash (acc @ [c]) cs else None))"

text \<open>One pattern tried at the start of \<open>s\<close>; the argument is the matcher of the name.\<close>

definition match_here :: "(string \<Rightarrow> string \<Rightarrow> string option) \<Rightarrow> string \<Rightarrow> (string \<times> string) option" where
  "match_here repo_matcher s =
     (if starts_with s ''github.com/'' then
        (let r = drop 11 s;
             owner = takeWhile (\<lambda>c. c \<noteq> CHR ''/'') r;
             after_owner = dropWhile (\<lambda>c. c \<noteq> CHR ''/'') r
         in if owner = [] \<or> after_owner = [] then None
            else (case repo_matcher [] (tl after_owner) of
                    None \<Rightarrow> None
                  | Some repo \<Rightarrow> Some (owner, repo)))
      else None)"

text \<open>\<open>String.prototype.match\<close> without the global flag: the leftmost match.\<close>

fun regex_search :: "(string \<Rightarrow> 'a option) \<Rightarrow> string \<Rightarrow> 'a option" where
  "regex_search m [] = m []"
| "regex_search m (c # cs) =
     (case m (c # cs) of Some r \<Rightarrow> Some r | None \<Rightarrow> regex_search m cs)"

definition parseGitHubUrl :: "string \<Rightarrow> string + (string \<times> string)" where
  "parseGitHubUrl url =
     (case regex_search (match_here lazy_repo_git) url of
        Some r \<Rightarrow> Inr r
      | None \<Rightarrow>
          (case regex_search (match_here lazy_repo_slash) url of
             Some r \<Rightarrow> Inr r
           | None \<Rightarrow> Inl (''Invalid GitHub URL: '' @ url)))"

section \<open>Repository manager: calls to the hosting API\<close>

text \<open>
  What \<open>fetch\<close> and \<open>response.json()\<close> can do is data: \<open>fetch\<close> rejects with a message or
  resolves to a response with a status, a status text and a body; reading the body
  rejects with a message, or yields \<open>null\<close>, or yields an object of which the fields the
  code reads are kept (absent fields are \<open>None\<close>).  A thrown \<open>Error\<close> is its message.
\<close>

datatype 'b json_result = JsonThrows string | JsonNull | JsonObject 'b

datatype 'b fetch_outcome = FetchThrows string | Response nat string "'b json_result"

definition response_ok :: "nat \<Rightarrow> bool" where
  "response_ok st = (200 \<le> st \<and> st \<le> 299)"

text \<open>\<open>a || b\<close> on an optional string: the empty string and \<open>undefined\<close> are falsy.\<close>

definition or_else :: "string option \<Rightarrow> string \<Rightarrow> string" where
  "or_else a b = (case a of None \<Rightarrow> b | Some x \<Rightarrow> if x = [] then b else x)"

fun show_nat :: "nat \<Rightarrow> string" where
  "show_nat n = (if n < 10 then [digit_chars ! n]
                 else show_nat (n div 10) @ [digit_chars ! (n mod 10)])"

definition show_int :: "int \<Rightarrow> string" where
  "show_int i = (if i < 0 then ''-'' @ show_nat (nat (- i)) else show_nat (nat i))"

definition null_read_error :: "string \<Rightarrow> string" where
  "null_read_error field = ''Cannot read properties of null (reading '' @ [CHR 0x27] @ field @ [CHR 0x27] @ '')''"

text \<open>
  Messages are byte strings in UTF-8: the arrow U+2192 of the source texts is three
  bytes.
\<close>

definition arrow :: string where
  "arrow = [CHR 0xE2, CHR 0x86, CHR 0x92]"

text \<open>The message of \<open>getBotToken\<close> in the retrying repository manager.\<close>

definition token_missing_error :: string where
  "token_missing_error =
     ''GITHUB_BOT_TOKEN is not set. Add it to your .env file. '' @
     ''Create a classic PAT at: GitHub '' @ arrow @ '' Settings '' @ arrow @
     '' Developer settings '' @ arrow @ '' Personal Access Tokens. '' @
     ''Required scopes: 'repo' for full repository access.''"

text \<open>The message of \<open>getBotToken\<close> in the repository manager without retries.\<close>

definition token_missing_error_single :: string where
  "token_missing_error_single =
     ''GITHUB_BOT_TOKEN is not set. Add it to your .env file. '' @
     ''Create a token at: GitHub '' @ arrow @ '' Settings '' @ arrow @
     '' Developer settings '' @ arrow @ '' Personal Access Tokens (classic). '' @
     ''Required scopes: 'public_repo' (for forking) or 'repo' (for full repository access).''"

text \<open>
  \<open>getBotToken\<close>: the environment variable, which may be unset or empty; both are
  falsy and throw.  The two repository managers differ in the message only.
\<close>

definition getBotToken :: "string option \<Rightarrow> string + string" where
  "getBotToken env_token =
     (case env_token of
        None \<Rightarrow> Inl token_missing_error
      | Some t \<Rightarrow> if t = [] then Inl token_missing_error else Inr t)"

definition getBotToken_single :: "string option \<Rightarrow> string + string" where
  "getBotToken_single env_token =
     (case env_token of
        None \<Rightarrow> Inl token_missing_error_single
      | Some t \<Rightarrow> if t = [] then Inl token_missing_error_single else Inr t)"

subsection \<open>\<open>forkRepo\<close>\<close>

record ForkResult =
  fr_forkOwner :: "string option"
  fr_forkRepo :: string
  fr_forkUrl :: string
  fr_success :: bool
  fr_error :: "string option"

record fork_body =
  fb_message :: "string option"
  fb_owner_login :: "string option"
  fb_full_name :: "string option"
  fb_name :: "string option"

text \<open>
  \<open>waitForFork\<close> polls the fork until a response is OK or the time budget is used up.
  Every poll is inside its own \<open>try\<close>, so it returns in either case; the result says
  whether the fork was seen.  The polls made within the budget are the list.
\<close>

fun waitForFork :: "unit fetch_outcome list \<Rightarrow> bool" where
  "waitForFork [] = False"
| "waitForFork (FetchThrows m # ps) = waitForFork ps"
| "waitForFork (Response st txt b # ps) = (if response_ok st then True else waitForFork ps)"

definition scope_hint :: string where
  "scope_hint =
     ''GitHub token may lack 'public_repo' or 'repo' scope. '' @
     ''Go to GitHub Settings '' @ arrow @ '' Developer settings '' @ arrow @
     '' Personal Access Tokens to update.''"

definition fork_failure :: "string \<Rightarrow> ForkResult" where
  "fork_failure msg =
     \<lparr> fr_forkOwner = Some [], fr_forkRepo = [], fr_forkUrl = [], fr_success = False,
       fr_error = Some msg \<rparr>"

definition show_undefined :: "string option \<Rightarrow> string" where
  "show_undefined x = (case x of None \<Rightarrow> ''undefined'' | Some v \<Rightarrow> v)"

text \<open>
  The body of the \<open>try\<close> of one fork attempt: \<open>Inl\<close> is the message of what was thrown
  inside it, \<open>Inr\<close> the result returned.
\<close>

definition fork_try ::
  "string \<Rightarrow> fork_body fetch_outcome \<Rightarrow> unit fetch_outcome list \<Rightarrow> string + ForkResult" where
  "fork_try repo resp polls =
     (case resp of
        FetchThrows m \<Rightarrow> Inl m
      | Response st txt body \<Rightarrow>
          if \<not> response_ok st \<and> st \<noteq> 202 then
            (case body of
               JsonNull \<Rightarrow> Inl (null_read_error ''message'')
             | _ \<Rightarrow>
                (let errorMsg = (case body of
                                   JsonObject b \<Rightarrow> or_else (fb_message b) txt
                                 | _ \<Rightarrow> txt)
                 in if st = 403
                    then Inl (''Fork failed (403): '' @ errorMsg @ ''. '' @ scope_hint)
                    else Inl (''Fork failed ('' @ show_nat st @ ''): '' @ errorMsg)))
          else
            (case body of
               JsonThrows m \<Rightarrow> Inl m
             | JsonNull \<Rightarrow> Inl (null_read_error ''owner'')
             | JsonObject b \<Rightarrow>
                (let owner = (case fb_owner_login b of
                                Some l \<Rightarrow> if l \<noteq> [] then Some l
                                          else map_option (takeWhile (\<lambda>c. c \<noteq> CHR ''/'')) (fb_full_name b)
                              | None \<Rightarrow> map_option (takeWhile (\<lambda>c. c \<noteq> CHR ''/'')) (fb_full_name b));
                     forkRepoName = or_else (fb_name b) repo;
                     ready = waitForFork polls
                 in Inr \<lparr> fr_forkOwner = owner, fr_forkRepo = forkRepoName,
                          fr_forkUrl = ''https://github.com/'' @ show_undefined owner @ ''/'' @ forkRepoName,
                          fr_success = True, fr_error = None \<rparr>)))"

record fork_env =
  fork_response :: "nat \<Rightarrow> fork_body fetch_outcome"
  fork_polls :: "nat \<Rightarrow> unit fetch_outcome list"

definition maxForkAttempts :: nat where
  "maxForkAttempts = 2"

text \<open>The \<open>for\<close> loop over the fork attempts, the attempts still to make being the list.\<close>

fun fork_loop :: "fork_env \<Rightarrow> string \<Rightarrow> nat list \<Rightarrow> ForkResult" where
  "fork_loop env repo [] = fork_failure ''Fork failed''"
| "fork_loop env repo (forkAttempt # later) =
     (case fork_try repo (fork_response env forkAttempt) (fork_polls env forkAttempt) of
        Inr r \<Rightarrow> r
      | Inl msg \<Rightarrow>
          if forkAttempt < maxForkAttempts then fork_loop env repo later
          else fork_failure msg)"

text \<open>\<open>forkRepo\<close> of the retrying repository manager; \<open>Inl\<close> is an exception for the caller.\<close>

definition forkRepo :: "string option \<Rightarrow> fork_env \<Rightarrow> string \<Rightarrow> string \<Rightarrow> string + ForkResult" where
  "forkRepo env_token env owner repo =
     (case getBotToken env_token of
        Inl msg \<Rightarrow> Inl msg
      | Inr token \<Rightarrow> Inr (fork_loop env repo [1 ..< Suc maxForkAttempts]))"

text \<open>\<open>forkRepo\<close> of the repository manager without retries: one \<open>try\<close>.\<close>

definition forkRepo_single :: "string option \<Rightarrow> fork_env \<Rightarrow> string \<Rightarrow> string \<Rightarrow> string + ForkResult" where
  "forkRepo_single env_token env owner repo =
     (case getBotToken_single env_token of
        Inl msg \<Rightarrow> Inl msg
      | Inr token \<Rightarrow>
          (case fork_try repo (fork_response env 1) (fork_polls env 1) of
             Inr r \<Rightarrow> Inr r
           | Inl msg \<Rightarrow> Inr (fork_failure msg)))"

subsection \<open>\<open>createPullRequest\<close>\<close>

record PullRequestResult =
  pr_success :: bool
  prNumber :: "int option"
  prUrl :: "string option"
  pr_error :: "string option"

record pr_body =
  pb_first_error_message :: "string option"
  pb_message :: "string option"
  pb_number :: "int option"
  pb_html_url :: "string option"

text \<open>\<open>haystack.includes(needle)\<close>.\<close>

fun str_includes :: "string \<Rightarrow> string \<Rightarrow> bool" where
  "str_includes [] needle = (needle = [])"
| "str_includes (c # cs) needle = (starts_with (c # cs) needle \<or> str_includes cs needle)"

definition already_exists :: "nat \<Rightarrow> pr_body json_result \<Rightarrow> bool" where
  "already_exists st errorData =
     (st = 422 \<and>
      (case errorData of
         JsonObject b \<Rightarrow>
           (case pb_first_error_message b of
              Some m \<Rightarrow> str_includes m ''pull request already exists''
            | None \<Rightarrow> False)
       | _ \<Rightarrow> False))"

definition pulls_page :: "string \<Rightarrow> string \<Rightarrow> string" where
  "pulls_page originalOwner originalRepo =
     ''https://github.com/'' @ originalOwner @ ''/'' @ originalRepo @ ''/pulls''"

text \<open>
  The search for the open pull request of the head branch, in its own \<open>try\<close>: the result
  of the first entry when the response is OK and the list is not empty.
\<close>

definition lookup_existing :: "pr_body list fetch_outcome \<Rightarrow> PullRequestResult option" where
  "lookup_existing searchRes =
     (case searchRes of
        Response st txt (JsonObject prs) \<Rightarrow>
          if response_ok st then
            (case prs of
               [] \<Rightarrow> None
             | p # ps \<Rightarrow> Some \<lparr> pr_success = True, prNumber = pb_number p,
                               prUrl = pb_html_url p, pr_error = None \<rparr>)
          else None
      | _ \<Rightarrow> None)"

text \<open>
  One attempt of the retrying \<open>createPullRequest\<close>: \<open>Inr\<close> is a returned result, \<open>Inl\<close>
  the message of a failed attempt.  A failed attempt is retried while attempts remain,
  and otherwise its message is returned with \<open>success: false\<close>; the source does this
  once for a non-OK response and once in the \<open>catch\<close>, with the same outcome.
\<close>

definition pr_try ::
  "string \<Rightarrow> string \<Rightarrow> pr_body fetch_outcome \<Rightarrow> pr_body list fetch_outcome
     \<Rightarrow> string + PullRequestResult" where
  "pr_try originalOwner originalRepo resp searchRes =
     (case resp of
        FetchThrows m \<Rightarrow> Inl m
      | Response st txt body \<Rightarrow>
          if \<not> response_ok st then
            (case body of
               JsonNull \<Rightarrow> Inl (null_read_error (if st = 422 then ''errors'' else ''message''))
             | _ \<Rightarrow>
                if already_exists st body then
                  (case lookup_existing searchRes of
                     Some found \<Rightarrow> Inr found
                   | None \<Rightarrow> Inr \<lparr> pr_success = True, prNumber = None,
                                    prUrl = Some (pulls_page originalOwner originalRepo),
                                    pr_error = None \<rparr>)
                else Inl (''GitHub API error '' @ show_nat st @ '': '' @
                          (case body of JsonObject b \<Rightarrow> or_else (pb_message b) txt | _ \<Rightarrow> txt)))
          else
            (case body of
               JsonThrows m \<Rightarrow> Inl m
             | JsonNull \<Rightarrow> Inl (null_read_error ''number'')
             | JsonObject b \<Rightarrow> Inr \<lparr> pr_success = True, prNumber = pb_number b,
                                     prUrl = pb_html_url b, pr_error = None \<rparr>))"

record pr_env =
  pr_response :: "nat \<Rightarrow> pr_body fetch_outcome"
  pr_search :: "pr_body list fetch_outcome"

definition maxRetries :: nat where
  "maxRetries = 2"

definition pr_failure :: "string \<Rightarrow> PullRequestResult" where
  "pr_failure msg = \<lparr> pr_success = False, prNumber = None, prUrl = None, pr_error = Some msg \<rparr>"

fun pr_loop :: "pr_env \<Rightarrow> string \<Rightarrow> string \<Rightarrow> nat list \<Rightarrow> PullRequestResult" where
  "pr_loop env originalOwner originalRepo [] = pr_failure ''Max PR retries exceeded''"
| "pr_loop env originalOwner originalRepo (attempt # later) =
     (case pr_try originalOwner originalRepo (pr_response env attempt) (pr_search env) of
        Inr r \<Rightarrow> r
      | Inl msg \<Rightarrow>
          if attempt < maxRetries then pr_loop env originalOwner originalRepo later
          else pr_failure msg)"

text \<open>
  \<open>createPullRequest\<close> of the retrying repository manager.  The title, the body and the
  base branch only go into the request, which is not modelled.
\<close>

definition createPullRequest ::
  "string option \<Rightarrow> pr_env \<Rightarrow> string \<Rightarrow> string \<Rightarrow> string + PullRequestResult" where
  "createPullRequest env_token env originalOwner originalRepo =
     (case getBotToken env_token of
        Inl msg \<Rightarrow> Inl msg
      | Inr token \<Rightarrow> Inr (pr_loop env originalOwner originalRepo [1 ..< Suc maxRetries]))"

text \<open>\<open>createPullRequest\<close> of the repository manager without retries and without search.\<close>

definition createPullRequest_single ::
  "string option \<Rightarrow> pr_env \<Rightarrow> string \<Rightarrow> string \<Rightarrow> string + PullRequestResult" where
  "createPullRequest_single env_token env originalOwner originalRepo =
     (case getBotToken_single env_token of
        Inl msg \<Rightarrow> Inl msg
      | Inr token \<Rightarrow>
          (case pr_response env 1 of
             FetchThrows m \<Rightarrow> Inr (pr_failure m)
           | Response st txt body \<Rightarrow>
               if \<not> response_ok st then
                 (case body of
                    JsonNull \<Rightarrow>
                      Inr (pr_failure (null_read_error (if st = 422 then ''errors'' else ''message'')))
                  | _ \<Rightarrow>
                     if already_exists st body then
                       Inr \<lparr> pr_success = True, prNumber = None,
                             prUrl = Some (pulls_page originalOwner originalRepo),
                             pr_error = None \<rparr>
                     else Inr (pr_failure (''GitHub API error '' @ show_nat st @ '': '' @
                            (case body of JsonObject b \<Rightarrow> or_else (pb_message b) txt | _ \<Rightarrow> txt))))
               else
                 (case body of
                    JsonThrows m \<Rightarrow> Inr (pr_failure m)
                  | JsonNull \<Rightarrow> Inr (pr_failure (null_read_error ''number''))
                  | JsonObject b \<Rightarrow> Inr \<lparr> pr_success = True, prNumber = pb_number b,
                                          prUrl = pb_html_url b, pr_error = None \<rparr>)))"

section \<open>Orchestrator: the accumulated bug list\<close>

record ParsedError =
  e_filePath :: string
  e_line :: int
  e_message :: string
  e_type :: BugCategory

record FixResult =
  fx_applied :: bool
  fx_filePath :: string
  fx_description :: string
  fx_bugId :: string

record FixAllResult =
  fx_results :: "FixResult list"
  fx_bugsFixed :: int
  fx_filesChanged :: int

datatype AttemptStatus = attempt_passed | attempt_failed | attempt_running

record HealingAttempt =
  at_attempt :: nat
  at_status :: AttemptStatus
  at_bugsFound :: nat
  at_bugsFixed :: int
  at_commitSha :: "string option"
  at_commitMessage :: "string option"

text \<open>
  \<open>allBugs.find((b) => b.filePath === bug.filePath && b.line === bug.line)\<close> is used for
  its truth value only: is some tracked bug at this file and line?
\<close>

definition tracked_at :: "HealingBug list \<Rightarrow> string \<Rightarrow> int \<Rightarrow> bool" where
  "tracked_at bugs path lno = list_ex (\<lambda>b. filePath b = path \<and> line b = lno) bugs"

definition fixed_at :: "HealingBug list \<Rightarrow> string \<Rightarrow> int \<Rightarrow> bool" where
  "fixed_at bugs path lno = list_ex (\<lambda>b. filePath b = path \<and> line b = lno \<and> fixed b) bugs"

text \<open>
  The scan results of one attempt, fork-required orchestrator: a location already fixed
  is skipped; an untracked location is pushed onto \<open>allBugs\<close>; every bug not skipped is
  actionable.  The state of the \<open>for\<close> loop is the pair of the two arrays.
\<close>

fun trackScanned ::
  "HealingBug list \<Rightarrow> HealingBug list \<Rightarrow> HealingBug list \<Rightarrow> HealingBug list \<times> HealingBug list" where
  "trackScanned all_bugs genuinelyNew [] = (all_bugs, genuinelyNew)"
| "trackScanned all_bugs genuinelyNew (bug # bugs) =
     (if fixed_at all_bugs (filePath bug) (line bug) then trackScanned all_bugs genuinelyNew bugs
      else trackScanned
             (if \<not> tracked_at all_bugs (filePath bug) (line bug) then all_bugs @ [bug] else all_bugs)
             (genuinelyNew @ [bug]) bugs)"

text \<open>The same loop in the orchestrator with fallback: new locations only.\<close>

fun trackScanned_fallback ::
  "HealingBug list \<Rightarrow> HealingBug list \<Rightarrow> HealingBug list \<Rightarrow> HealingBug list \<times> HealingBug list" where
  "trackScanned_fallback all_bugs newBugs [] = (all_bugs, newBugs)"
| "trackScanned_fallback all_bugs newBugs (bug # bugs) =
     (if \<not> tracked_at all_bugs (filePath bug) (line bug)
      then trackScanned_fallback (all_bugs @ [bug]) (newBugs @ [bug]) bugs
      else trackScanned_fallback all_bugs newBugs bugs)"

definition show_category :: "BugCategory \<Rightarrow> string" where
  "show_category c = (case c of SYNTAX \<Rightarrow> ''SYNTAX'' | LINTING \<Rightarrow> ''LINTING''
     | RUNTIME \<Rightarrow> ''RUNTIME'' | LOGIC \<Rightarrow> ''LOGIC'' | IMPORT \<Rightarrow> ''IMPORT'' | TYPE_BUG \<Rightarrow> ''TYPE''
     | DEPENDENCY \<Rightarrow> ''DEPENDENCY'')"

text \<open>
  Bugs made from the test errors whose location is not fixed yet; \<open>uuid i\<close> is the
  identifier that \<open>uuidv4()\<close> returns for the \<open>i\<close>-th of them.
\<close>

definition bug_of_error :: "string \<Rightarrow> ParsedError \<Rightarrow> HealingBug" where
  "bug_of_error ident e =
     \<lparr> bug_id = ident, category = e_type e, filePath = e_filePath e, line = e_line e,
       message = show_category (e_type e) @ '' error in '' @ e_filePath e @ '' line ''
                 @ show_int (e_line e) @ '': '' @ e_message e,
       severity = ''high'', fixed = False, fixedAtAttempt = None \<rparr>"

definition synthesizeBugs :: "(nat \<Rightarrow> string) \<Rightarrow> HealingBug list \<Rightarrow> ParsedError list \<Rightarrow> HealingBug list" where
  "synthesizeBugs uuid all_bugs errors =
     map (\<lambda>(i, e). bug_of_error (uuid i) e)
       (enumerate 0 (filter (\<lambda>e. \<not> fixed_at all_bugs (e_filePath e) (e_line e)) errors))"

fun pushUntracked :: "HealingBug list \<Rightarrow> HealingBug list \<Rightarrow> HealingBug list" where
  "pushUntracked all_bugs [] = all_bugs"
| "pushUntracked all_bugs (bug # bugs) =
     pushUntracked
       (if \<not> tracked_at all_bugs (filePath bug) (line bug) then all_bugs @ [bug] else all_bugs) bugs"

text \<open>
  \<open>allBugs.find((b) => b.id === result.bugId)\<close> and the two assignments to what it
  finds: the first bug with that identifier is stamped.
\<close>

fun mark_bug :: "string \<Rightarrow> nat \<Rightarrow> HealingBug list \<Rightarrow> HealingBug list" where
  "mark_bug ident attempt [] = []"
| "mark_bug ident attempt (b # bs) =
     (if bug_id b = ident then b\<lparr>fixed := True, fixedAtAttempt := Some attempt\<rparr> # bs
      else b # mark_bug ident attempt bs)"

fun markFixed :: "HealingBug list \<Rightarrow> FixResult list \<Rightarrow> nat \<Rightarrow> HealingBug list" where
  "markFixed all_bugs [] attempt = all_bugs"
| "markFixed all_bugs (r # results) attempt =
     markFixed (if fx_applied r then mark_bug (fx_bugId r) attempt all_bugs else all_bugs)
       results attempt"

section \<open>Orchestrator: the healing loop\<close>

record OrchestratorInput =
  sessionId :: string
  repoUrl :: string
  userId :: string
  teamName :: js_string
  leaderName :: js_string

text \<open>
  What the outside world answers during one attempt, in the order the loop body asks:
  the three timeout checks and the one before the push, the test run, the scanner, the
  identifiers drawn, the fix engineer, the commit, and the commit count and clock read
  when a score is computed.  \<open>Inl\<close> is the message of an exception.
\<close>

record attempt_env =
  timedOut_start :: bool
  test_passed :: bool
  test_errors :: "ParsedError list"
  timedOut_scan :: bool
  scan_outcome :: "string + HealingBug list"
  uuids :: "nat \<Rightarrow> string"
  timedOut_fix :: bool
  fix_outcome :: "string + FixAllResult"
  timedOut_push :: bool
  commit_outcome :: "string + string option"
  commitCount :: nat
  elapsedSec :: rat

record orch_env =
  env_token :: "string option"
  fork_calls :: fork_env
  botUser :: string
  clone_failure :: "string option"
  branch_failure :: "string option"
  attempt_envs :: "nat \<Rightarrow> attempt_env"
  finalTestPassed :: bool
  finalCommitCount :: nat
  finalElapsedSec :: rat
  pr_calls :: pr_env
  files0 :: filesystem
  unicode_upper_table :: "int \<Rightarrow> js_string"

text \<open>
  The session as the orchestrator holds and persists it.  \<open>status\<close> is the status last
  written to the session record; \<open>pr_requested\<close> records that \<open>createPullRequest\<close> was
  called; \<open>files\<close> is the file system.  Progress events, test output, durations and
  time stamps are left out.
\<close>

record session =
  status :: "HealingStatus option"
  error_message :: "string option"
  currentAttempt :: nat
  allBugs :: "HealingBug list"
  attempts :: "HealingAttempt list"
  score :: "HealingScore option"
  repoDir :: string
  branchName :: js_string
  session_forkOwner :: "string option"
  pr_requested :: bool
  session_prUrl :: "string option"
  session_prNumber :: "int option"
  files :: filesystem

datatype flow = Next session | Break session | Return session | Throw string session

definition MAX_ATTEMPTS :: nat where
  "MAX_ATTEMPTS = 3"

definition MAX_ATTEMPTS_fallback :: nat where
  "MAX_ATTEMPTS_fallback = 5"

text \<open>
  \<open>cloneRepo\<close>: an old sandbox directory of the session is removed, then \<open>git clone\<close>
  either creates the directory or fails with its error output and leaves none.  With a
  fork to clone, the URL is parsed after the clone, inside the same \<open>try\<close>, to add the
  upstream remote; without one it is parsed before, outside the \<open>try\<close>.
\<close>

definition cloneRepo ::
  "string option \<Rightarrow> string option \<Rightarrow> string \<Rightarrow> string \<Rightarrow> string option \<Rightarrow> string
     \<Rightarrow> filesystem \<Rightarrow> (string + string) \<times> filesystem" where
  "cloneRepo token git_failure url sid fork_owner forkRepoName fs =
     (let sandboxDir = getSandboxDir sid;
          fs1 = (if existsSync sandboxDir fs then rmSync sandboxDir fs else fs);
          use_fork = (or_else fork_owner [] \<noteq> [] \<and> forkRepoName \<noteq> [])
      in case getBotToken token of
           Inl msg \<Rightarrow> (Inl msg, fs1)
         | Inr t \<Rightarrow>
            (case (if use_fork then Inr ([], []) else parseGitHubUrl url) of
               Inl msg \<Rightarrow> (Inl msg, fs1)
             | Inr target \<Rightarrow>
                (case git_failure of
                   Some stderr \<Rightarrow> (Inl (''Failed to clone repository: '' @ stderr), fs1)
                 | None \<Rightarrow>
                    (case (if use_fork then parseGitHubUrl url else Inr ([], [])) of
                       Inl msg \<Rightarrow> (Inl (''Failed to clone repository: '' @ msg),
                                    insert sandboxDir fs1)
                     | Inr upstream \<Rightarrow> (Inr sandboxDir, insert sandboxDir fs1)))))"

text \<open>\<open>attemptCreatePR\<close>: the result is stored when it is a success.\<close>

definition attemptCreatePR :: "orch_env \<Rightarrow> string \<times> string \<Rightarrow> session \<Rightarrow> flow" where
  "attemptCreatePR env repo s =
     (case createPullRequest (env_token env) (pr_calls env) (fst repo) (snd repo) of
        Inl msg \<Rightarrow> Throw msg s
      | Inr prResult \<Rightarrow>
          if pr_success prResult
          then Return (s\<lparr>pr_requested := True, session_prUrl := prUrl prResult,
                         session_prNumber := prNumber prResult\<rparr>)
          else Return (s\<lparr>pr_requested := True\<rparr>))"

text \<open>
  The two exits of the loop body that declare success (tests passed; nothing left to
  fix): a passed attempt is recorded, the score is computed with the tests-passed flag
  set, the session is finalized as completed and the pull request is attempted.  They
  differ in the fixed count of the attempt record.
\<close>

definition finish_completed ::
  "orch_env \<Rightarrow> string \<times> string \<Rightarrow> nat \<Rightarrow> attempt_env \<Rightarrow> int \<Rightarrow> session \<Rightarrow> flow" where
  "finish_completed env repo attempt e recorded_fixed s =
     (let attemptRecord = \<lparr> at_attempt = attempt, at_status = attempt_passed, at_bugsFound = 0,
                             at_bugsFixed = recorded_fixed, at_commitSha = None,
                             at_commitMessage = None \<rparr>;
          s1 = s\<lparr>attempts := attempts s @ [attemptRecord]\<rparr>;
          sc = calculateScore (allBugs s1) True (int attempt) (int (commitCount e)) (elapsedSec e);
          s2 = s1\<lparr>status := Some completed, score := Some sc\<rparr>
      in attemptCreatePR env repo s2)"

definition commit_message :: "int \<Rightarrow> nat \<Rightarrow> string" where
  "commit_message nfix attempt =
     ''Fix '' @ show_int nfix @ '' bug(s) - attempt '' @ show_nat attempt @ ''/'' @ show_nat MAX_ATTEMPTS"

text \<open>
  One iteration of the \<open>for\<close> loop of the fork-required orchestrator.  \<open>pushBranch\<close> sits
  in a \<open>try\<close> of its own and its outcome reaches the log only.
\<close>

definition attemptBody :: "orch_env \<Rightarrow> string \<times> string \<Rightarrow> nat \<Rightarrow> session \<Rightarrow> flow" where
  "attemptBody env repo attempt s0 =
     (let e = attempt_envs env attempt;
          s1 = s0\<lparr>currentAttempt := attempt\<rparr>
      in if timedOut_start e then Break s1
         else
          (let s2 = s1\<lparr>status := Some testing\<rparr>
           in if test_passed e then finish_completed env repo attempt e 0 s2
              else if timedOut_scan e then Break s2
              else
               (case scan_outcome e of
                  Inl msg \<Rightarrow> Throw msg (s2\<lparr>status := Some scanning\<rparr>)
                | Inr bugs \<Rightarrow>
                   (let tracked = trackScanned (allBugs s2) [] bugs;
                        genuinelyNewBugs = snd tracked;
                        use_errors = (genuinelyNewBugs = [] \<and> test_errors e \<noteq> []);
                        bugsToFix = (if use_errors
                                     then synthesizeBugs (uuids e) (fst tracked) (test_errors e)
                                     else genuinelyNewBugs);
                        all2 = (if use_errors then pushUntracked (fst tracked) bugsToFix
                                else fst tracked);
                        s3 = s2\<lparr>status := Some scanning, allBugs := all2\<rparr>
                    in if bugsToFix = []
                       then finish_completed env repo attempt e (int (length (filter fixed all2))) s3
                       else if timedOut_fix e then Break s3
                       else
                        (case fix_outcome e of
                           Inl msg \<Rightarrow> Throw msg (s3\<lparr>status := Some fixing\<rparr>)
                         | Inr fixResult \<Rightarrow>
                            (let s4 = s3\<lparr>status := Some fixing,
                                          allBugs := markFixed all2 (fx_results fixResult) attempt\<rparr>
                             in if timedOut_push e then Break s4
                                else
                                 (case commit_outcome e of
                                    Inl msg \<Rightarrow> Throw (''Failed to commit: '' @ msg)
                                                 (s4\<lparr>status := Some pushing\<rparr>)
                                  | Inr commitSha \<Rightarrow>
                                     (let sha = (case commitSha of
                                                   None \<Rightarrow> None
                                                 | Some h \<Rightarrow> if h = [] then None else Some h);
                                          attemptRecord =
                                            \<lparr> at_attempt = attempt, at_status = attempt_failed,
                                              at_bugsFound = length bugs,
                                              at_bugsFixed = fx_bugsFixed fixResult,
                                              at_commitSha = sha,
                                              at_commitMessage =
                                                map_option (\<lambda>h. ''[AI-AGENT] '' @
                                                  commit_message (fx_bugsFixed fixResult) attempt) sha \<rparr>
                                      in Next (s4\<lparr>status := Some pushing,
                                                   attempts := attempts s4 @ [attemptRecord]\<rparr>)))))))))"

text \<open>
  \<open>for (let attempt = 1; attempt <= MAX_ATTEMPTS; attempt++)\<close>: the loop runs over the
  attempt numbers that remain.
\<close>

definition attempt_numbers :: "nat list" where
  "attempt_numbers = [1 ..< Suc MAX_ATTEMPTS]"

fun attemptsLoop :: "orch_env \<Rightarrow> string \<times> string \<Rightarrow> nat list \<Rightarrow> session \<Rightarrow> flow" where
  "attemptsLoop env repo [] s = Next s"
| "attemptsLoop env repo (attempt # later) s =
     (case attemptBody env repo attempt s of
        Next s' \<Rightarrow> attemptsLoop env repo later s'
      | Break s' \<Rightarrow> Break s'
      | Return s' \<Rightarrow> Return s'
      | Throw msg s' \<Rightarrow> Throw msg s')"

text \<open>The final verification of the fork-required orchestrator.\<close>

definition finalVerification :: "orch_env \<Rightarrow> string \<times> string \<Rightarrow> session \<Rightarrow> flow" where
  "finalVerification env repo s =
     (let sc = calculateScore (allBugs s) (finalTestPassed env) (int MAX_ATTEMPTS)
                 (int (finalCommitCount env)) (finalElapsedSec env)
      in if finalTestPassed env
         then attemptCreatePR env repo (s\<lparr>status := Some completed, score := Some sc\<rparr>)
         else
          (let finalStatus = (if bugsFixed sc > 0 then partial_success else failed);
               s1 = s\<lparr>status := Some finalStatus, score := Some sc\<rparr>
           in if bugsFixed sc > 0 then attemptCreatePR env repo s1 else Return s1))"

text \<open>
  The final verification of the orchestrator with fallback, which calls the repository
  manager without retries; whether the head is the fork or the branch of the repository
  itself changes the request only.
\<close>

definition attemptCreatePR_fallback :: "orch_env \<Rightarrow> string \<times> string \<Rightarrow> session \<Rightarrow> flow" where
  "attemptCreatePR_fallback env repo s =
     (case createPullRequest_single (env_token env) (pr_calls env) (fst repo) (snd repo) of
        Inl msg \<Rightarrow> Throw msg s
      | Inr prResult \<Rightarrow>
          if pr_success prResult
          then Return (s\<lparr>pr_requested := True, session_prUrl := prUrl prResult,
                         session_prNumber := prNumber prResult\<rparr>)
          else Return (s\<lparr>pr_requested := True\<rparr>))"

definition finalVerification_fallback :: "orch_env \<Rightarrow> string \<times> string \<Rightarrow> session \<Rightarrow> flow" where
  "finalVerification_fallback env repo s =
     (let sc = calculateScore (allBugs s) (finalTestPassed env) (int MAX_ATTEMPTS_fallback)
                 (int (finalCommitCount env)) (finalElapsedSec env)
      in if finalTestPassed env
         then attemptCreatePR_fallback env repo (s\<lparr>status := Some completed, score := Some sc\<rparr>)
         else
          (let s1 = s\<lparr>status := Some failed, score := Some sc\<rparr>
           in if bugsFixed sc > 0 then attemptCreatePR_fallback env repo s1 else Return s1))"

text \<open>
  The bug list through the loop of the orchestrator with fallback.  An iteration that
  reaches its end tracks the scan results and then stamps the applied fixes; the final
  verification is reached after \<open>MAX_ATTEMPTS\<close> such iterations.  The answers of an
  iteration are the bugs the scanner returns and the results of the fix engineer.
\<close>

definition fallbackAttemptBugs ::
  "HealingBug list \<Rightarrow> HealingBug list \<Rightarrow> FixResult list \<Rightarrow> nat \<Rightarrow> HealingBug list" where
  "fallbackAttemptBugs all_bugs bugs results attempt =
     markFixed (fst (trackScanned_fallback all_bugs [] bugs)) results attempt"

definition attempt_numbers_fallback :: "nat list" where
  "attempt_numbers_fallback = [1 ..< Suc MAX_ATTEMPTS_fallback]"

fun fallbackLoopBugs ::
  "(nat \<Rightarrow> HealingBug list \<times> FixResult list) \<Rightarrow> nat list \<Rightarrow> HealingBug list \<Rightarrow> HealingBug list" where
  "fallbackLoopBugs answers [] all_bugs = all_bugs"
| "fallbackLoopBugs answers (attempt # later) all_bugs =
     fallbackLoopBugs answers later
       (fallbackAttemptBugs all_bugs (fst (answers attempt)) (snd (answers attempt)) attempt)"

definition fork_required_error :: "string \<times> string \<Rightarrow> string option \<Rightarrow> string \<Rightarrow> string" where
  "fork_required_error repo err bot_name =
     ''Cannot fork '' @ fst repo @ ''/'' @ snd repo @ '': '' @ show_undefined err @ ''. Bot: '' @ bot_name
     @ ''. Ensure the bot token has 'public_repo' or 'repo' scope.''"

text \<open>The \<open>try\<close> block of \<open>runHealingLoop\<close>, fork-required orchestrator.\<close>

definition healing_try :: "orch_env \<Rightarrow> OrchestratorInput \<Rightarrow> string \<times> string \<Rightarrow> session \<Rightarrow> flow" where
  "healing_try env inp repo s0 =
     (let s1 = s0\<lparr>status := Some cloning\<rparr>
      in case forkRepo (env_token env) (fork_calls env) (fst repo) (snd repo) of
           Inl msg \<Rightarrow> Throw msg s1
         | Inr forkResult \<Rightarrow>
            if \<not> fr_success forkResult then
              Return (s1\<lparr>status := Some failed,
                         error_message := Some (fork_required_error repo (fr_error forkResult)
                                                  (botUser env))\<rparr>)
            else
             (let s2 = s1\<lparr>session_forkOwner := fr_forkOwner forkResult\<rparr>;
                  cloned = cloneRepo (env_token env) (clone_failure env) (repoUrl inp)
                             (sessionId inp) (fr_forkOwner forkResult) (fr_forkRepo forkResult)
                             (files s2)
              in case fst cloned of
                   Inl msg \<Rightarrow> Throw msg (s2\<lparr>files := snd cloned\<rparr>)
                 | Inr dir \<Rightarrow>
                    (let s3 = s2\<lparr>repoDir := dir, files := snd cloned,
                                  branchName := getHealingBranchName (unicode_upper_table env) (teamName inp) (leaderName inp)\<rparr>
                     in case branch_failure env of
                          Some msg \<Rightarrow> Throw (''Failed to create branch: '' @ msg) s3
                        | None \<Rightarrow>
                           (case attemptsLoop env repo attempt_numbers s3 of
                              Next s \<Rightarrow> finalVerification env repo s
                            | Break s \<Rightarrow> finalVerification env repo s
                            | Return s \<Rightarrow> Return s
                            | Throw msg s \<Rightarrow> Throw msg s))))"

definition session_of :: "flow \<Rightarrow> session" where
  "session_of r = (case r of Next s \<Rightarrow> s | Break s \<Rightarrow> s | Return s \<Rightarrow> s
                   | Throw msg s \<Rightarrow> s\<lparr>status := Some failed, error_message := Some msg\<rparr>)"

definition initial_session :: "filesystem \<Rightarrow> session" where
  "initial_session fs =
     \<lparr> status = None, error_message = None, currentAttempt = 0, allBugs = [], attempts = [],
       score = None, repoDir = [], branchName = [], session_forkOwner = Some [],
       pr_requested = False, session_prUrl = None, session_prNumber = None, files = fs \<rparr>"

text \<open>
  \<open>runHealingLoop\<close>: the URL is parsed before the \<open>try\<close>; \<open>session_of\<close> is the \<open>catch\<close>,
  which marks the session failed with the message; the last step is the \<open>finally\<close>.
\<close>

definition runHealingLoop :: "orch_env \<Rightarrow> OrchestratorInput \<Rightarrow> session" where
  "runHealingLoop env inp =
     (case parseGitHubUrl (repoUrl inp) of
        Inl msg \<Rightarrow> (initial_session (files0 env))\<lparr>status := Some failed, error_message := Some msg\<rparr>
      | Inr repo \<Rightarrow>
         (let s = session_of (healing_try env inp repo (initial_session (files0 env)))
          in if repoDir s \<noteq> [] then s\<lparr>files := cleanupSandbox (sessionId inp) (files s)\<rparr>
             else s))"

section \<open>Auxiliary definitions for the proofs\<close>

text \<open>The two summands of the base score.\<close>

definition base_of :: "HealingBug list \<Rightarrow> int" where
  "base_of bugs = (if int (length bugs) > 0
     then Math_round ((of_int (int (length (filter fixed bugs))) / of_int (int (length bugs))) * 60)
     else 0)"

definition bonus_of :: "bool \<Rightarrow> int \<Rightarrow> int" where
  "bonus_of tp n_att =
     (if tp then 20 else 0) + (if n_att \<le> 2 then 10 else if n_att \<le> 3 then 5 else 0)"

text \<open>
  The normalisation of a name as the specification words it, written without the
  functions of the code.  White space is collapsed in one pass that remembers whether it
  is inside a run; then everything but ASCII letters, digits and the underscore is
  stripped; then the letters are made upper case.
\<close>

definition spec_white_space :: "int \<Rightarrow> bool" where
  "spec_white_space c =
     ((9 \<le> c \<and> c \<le> 13) \<or> c = 32 \<or> c = 160 \<or> c = 5760 \<or> (8192 \<le> c \<and> c \<le> 8202)
      \<or> c = 8232 \<or> c = 8233 \<or> c = 8239 \<or> c = 8287 \<or> c = 12288 \<or> c = 65279)"

fun spec_collapse_from :: "bool \<Rightarrow> js_string \<Rightarrow> js_string" where
  "spec_collapse_from in_run [] = []"
| "spec_collapse_from in_run (c # cs) =
     (if spec_white_space c
      then (if in_run then [] else js ''_'') @ spec_collapse_from True cs
      else c # spec_collapse_from False cs)"

definition spec_collapse :: "js_string \<Rightarrow> js_string" where
  "spec_collapse s = spec_collapse_from False s"

definition spec_alnum_underscore :: "int \<Rightarrow> bool" where
  "spec_alnum_underscore c =
     (c \<in> set (js lower_letters) \<or> c \<in> set (js upper_letters) \<or> c \<in> set (js digit_chars)
      \<or> c \<in> set (js ''_''))"

definition spec_branch_char :: "int \<Rightarrow> bool" where
  "spec_branch_char c =
     (c \<in> set (js upper_letters) \<or> c \<in> set (js digit_chars) \<or> c \<in> set (js ''_''))"

definition spec_upper_case :: "int \<Rightarrow> int" where
  "spec_upper_case c =
     (case map_of (zip (js lower_letters) (js upper_letters)) c of Some u \<Rightarrow> u | None \<Rightarrow> c)"

definition spec_normalize_name :: "js_string \<Rightarrow> js_string" where
  "spec_normalize_name name =
     map spec_upper_case (filter spec_alnum_underscore (spec_collapse name))"

definition is_ascii :: "js_string \<Rightarrow> bool" where
  "is_ascii s = list_all (\<lambda>c. 0 \<le> c \<and> c < 128) s"

text \<open>Owner and repository names as the first pattern wants them.\<close>

definition valid_owner :: "string \<Rightarrow> bool" where
  "valid_owner s = (s \<noteq> [] \<and> CHR ''/'' \<notin> set s)"

definition valid_repo :: "string \<Rightarrow> bool" where
  "valid_repo s = (s \<noteq> [] \<and> CHR ''/'' \<notin> set s \<and> CHR ''.'' \<notin> set s)"

text \<open>
  \<open>ends_with s e\<close>: the string ends in \<open>e\<close>.  A plain name is a non-empty name without a
  slash that does not end in \<open>.git\<close>.
\<close>

definition ends_with :: "string \<Rightarrow> string \<Rightarrow> bool" where
  "ends_with s e = (length e \<le> length s \<and> drop (length s - length e) s = e)"

definition plain_name :: "string \<Rightarrow> bool" where
  "plain_name s = (s \<noteq> [] \<and> CHR ''/'' \<notin> set s \<and> \<not> ends_with s ''.git'')"

text \<open>A bug at a location, for concrete runs.\<close>

definition bug_at :: "string \<Rightarrow> string \<Rightarrow> int \<Rightarrow> bool \<Rightarrow> HealingBug" where
  "bug_at ident path lno fx =
     \<lparr> bug_id = ident, category = LOGIC, filePath = path, line = lno, message = [],
       severity = ''high'', fixed = fx, fixedAtAttempt = None \<rparr>"

declare lazy_repo_git.simps [simp del]
declare lazy_repo_slash.simps [simp del]
declare show_nat.simps [simp del]

text \<open>
  The exceptions of the runtime (a rejected \<open>fetch\<close>, a body that is not JSON) carry a
  message; a response that makes a fork attempt fail.
\<close>

definition thrown_message_ok :: "'b fetch_outcome \<Rightarrow> bool" where
  "thrown_message_ok resp =
     (case resp of
        FetchThrows m \<Rightarrow> m \<noteq> []
      | Response st txt (JsonThrows m) \<Rightarrow> m \<noteq> []
      | _ \<Rightarrow> True)"

definition is_failure_response :: "'b fetch_outcome \<Rightarrow> bool" where
  "is_failure_response resp =
     (case resp of
        FetchThrows m \<Rightarrow> True
      | Response st txt body \<Rightarrow> \<not> response_ok st \<and> st \<noteq> 202)"

text \<open>The result of a failed fork: not a success, a message, empty owner, name and URL.\<close>

definition failure_shaped :: "ForkResult \<Rightarrow> bool" where
  "failure_shaped r =
     (\<not> fr_success r \<and> (case fr_error r of None \<Rightarrow> False | Some m \<Rightarrow> m \<noteq> [])
      \<and> fr_forkOwner r = Some [] \<and> fr_forkRepo r = [] \<and> fr_forkUrl r = [])"

text \<open>Every fork attempt is answered 403.\<close>

definition forbidden_fork_env :: fork_env where
  "forbidden_fork_env =
     \<lparr> fork_response = (\<lambda>k. Response 403 ''Forbidden''
          (JsonObject \<lparr> fb_message = Some ''Resource not accessible by personal access token'',
                        fb_owner_login = None, fb_full_name = None, fb_name = None \<rparr>)),
       fork_polls = (\<lambda>k. []) \<rparr>"

text \<open>What the retrying \<open>createPullRequest\<close> returns for an existing pull request.\<close>

definition existing_or_listing :: "pr_env \<Rightarrow> string \<Rightarrow> string \<Rightarrow> PullRequestResult" where
  "existing_or_listing env originalOwner originalRepo =
     (case lookup_existing (pr_search env) of
        Some found \<Rightarrow> found
      | None \<Rightarrow> \<lparr> pr_success = True, prNumber = None,
                  prUrl = Some (pulls_page originalOwner originalRepo), pr_error = None \<rparr>)"

text \<open>The create call answers 500 and then 422; the search finds pull request 7.\<close>

definition exists_after_retry_env :: pr_env where
  "exists_after_retry_env =
     \<lparr> pr_response = (\<lambda>k. if k = 1
          then Response 500 ''Internal Server Error''
                 (JsonObject \<lparr> pb_first_error_message = None, pb_message = Some ''Server Error'',
                               pb_number = None, pb_html_url = None \<rparr>)
          else Response 422 ''Unprocessable Entity''
                 (JsonObject \<lparr> pb_first_error_message =
                                 Some ''A pull request already exists for bot:TEAM_LEADER_AI_Fix.'',
                               pb_message = Some ''Validation Failed'',
                               pb_number = None, pb_html_url = None \<rparr>)),
       pr_search = Response 200 ''OK''
          (JsonObject [\<lparr> pb_first_error_message = None, pb_message = None, pb_number = Some 7,
                          pb_html_url = Some ''https://github.com/octo/demo/pull/7'' \<rparr>]) \<rparr>"

text \<open>The create call answers 422 at once; the search is refused.\<close>

definition exists_search_refused_env :: pr_env where
  "exists_search_refused_env =
     \<lparr> pr_response = (\<lambda>k. Response 422 ''Unprocessable Entity''
                 (JsonObject \<lparr> pb_first_error_message =
                                 Some ''A pull request already exists for bot:TEAM_LEADER_AI_Fix.'',
                               pb_message = Some ''Validation Failed'',
                               pb_number = None, pb_html_url = None \<rparr>)),
       pr_search = Response 403 ''Forbidden'' JsonNull \<rparr>"

text \<open>The create call answers 422 at once; the search finds pull request 7.\<close>

definition exists_found_env :: pr_env where
  "exists_found_env =
     \<lparr> pr_response = pr_response exists_search_refused_env,
       pr_search = pr_search exists_after_retry_env \<rparr>"




text \<open>The session a control-flow result carries, before any \<open>catch\<close>.\<close>

definition state_of :: "flow \<Rightarrow> session" where
  "state_of r = (case r of Next s \<Rightarrow> s | Break s \<Rightarrow> s | Return s \<Rightarrow> s | Throw msg s \<Rightarrow> s)"

text \<open>The state in which the loop starts once fork, clone and branch have succeeded.\<close>

definition loop_start :: "orch_env \<Rightarrow> OrchestratorInput \<Rightarrow> ForkResult \<Rightarrow> session" where
  "loop_start env inp fr =
     (initial_session (files0 env))
       \<lparr> status := Some cloning, session_forkOwner := fr_forkOwner fr,
         repoDir := getSandboxDir (sessionId inp),
         files := insert (getSandboxDir (sessionId inp)) (files0 env),
         branchName := getHealingBranchName (unicode_upper_table env) (teamName inp) (leaderName inp) \<rparr>"

text \<open>What the \<open>try\<close> block does with the result of the loop.\<close>

definition after_loop :: "orch_env \<Rightarrow> string \<times> string \<Rightarrow> flow \<Rightarrow> flow" where
  "after_loop env repo r =
     (case r of Next s \<Rightarrow> finalVerification env repo s
      | Break s \<Rightarrow> finalVerification env repo s
      | Return s \<Rightarrow> Return s
      | Throw msg s \<Rightarrow> Throw msg s)"

text \<open>The loop ran out of attempts or left by \<open>break\<close>.\<close>

definition is_fallthrough :: "flow \<Rightarrow> bool" where
  "is_fallthrough r = (case r of Next s \<Rightarrow> True | Break s \<Rightarrow> True | _ \<Rightarrow> False)"

text \<open>Concrete sessions: an input, the answers of the hosting API, and environments.\<close>

definition demo_input :: OrchestratorInput where
  "demo_input = \<lparr> sessionId = ''s1'', repoUrl = ''https://github.com/octo/demo'',
                   userId = ''u1'', teamName = js ''tech chaos'', leaderName = js ''Anurag Mishra!'' \<rparr>"

definition ok_fork_env :: fork_env where
  "ok_fork_env =
     \<lparr> fork_response = (\<lambda>k. Response 202 ''Accepted''
          (JsonObject \<lparr> fb_message = None, fb_owner_login = Some ''bot'',
                        fb_full_name = Some ''bot/demo'', fb_name = Some ''demo'' \<rparr>)),
       fork_polls = (\<lambda>k. [Response 200 ''OK'' (JsonObject ())]) \<rparr>"

definition demo_fork_result :: ForkResult where
  "demo_fork_result =
     \<lparr> fr_forkOwner = Some ''bot'', fr_forkRepo = ''demo'',
       fr_forkUrl = ''https://github.com/bot/demo'', fr_success = True, fr_error = None \<rparr>"

definition created_pr_env :: pr_env where
  "created_pr_env =
     \<lparr> pr_response = (\<lambda>k. Response 201 ''Created''
          (JsonObject \<lparr> pb_first_error_message = None, pb_message = None, pb_number = Some 12,
                        pb_html_url = Some ''https://github.com/octo/demo/pull/12'' \<rparr>)),
       pr_search = FetchThrows ''not asked'' \<rparr>"

definition quiet_attempt :: attempt_env where
  "quiet_attempt =
     \<lparr> timedOut_start = False, test_passed = False, test_errors = [], timedOut_scan = False,
       scan_outcome = Inr [], uuids = (\<lambda>i. ''uuid''), timedOut_fix = False,
       fix_outcome = Inr \<lparr> fx_results = [], fx_bugsFixed = 0, fx_filesChanged = 0 \<rparr>,
       timedOut_push = False, commit_outcome = Inr None, commitCount = 0, elapsedSec = 10 \<rparr>"

text \<open>The tests pass at the first run, after 10 seconds and no commit.\<close>

definition first_pass_env :: orch_env where
  "first_pass_env =
     \<lparr> env_token = Some ''ghp_token'', fork_calls = ok_fork_env, botUser = ''bot'',
       clone_failure = None, branch_failure = None,
       attempt_envs = (\<lambda>k. quiet_attempt\<lparr>test_passed := True\<rparr>),
       finalTestPassed = False, finalCommitCount = 0, finalElapsedSec = 400,
       pr_calls = created_pr_env, files0 = {}, unicode_upper_table = (\<lambda>c. [c]) \<rparr>"


text \<open>
  Attempt 1 fixes one of two bugs and commits; the session has timed out when attempt 2
  starts; the final test run fails.
\<close>

definition partial_env :: orch_env where
  "partial_env =
     first_pass_env\<lparr>attempt_envs :=
       (\<lambda>k. if k = 1
            then quiet_attempt\<lparr>
                   scan_outcome := Inr [bug_at ''b1'' ''a.py'' 1 False, bug_at ''b2'' ''b.py'' 2 False],
                   fix_outcome := Inr \<lparr> fx_results = [\<lparr> fx_applied = True, fx_filePath = ''a.py'',
                                                         fx_description = ''patched'', fx_bugId = ''b1'' \<rparr>],
                                         fx_bugsFixed = 1, fx_filesChanged = 1 \<rparr>,
                   commit_outcome := Inr (Some ''abc1234'')\<rparr>
            else quiet_attempt\<lparr>timedOut_start := True\<rparr>)\<rparr>"

text \<open>A session that tracks one bug, fixed.\<close>

definition one_fixed_session :: session where
  "one_fixed_session = (initial_session {})\<lparr>allBugs := [bug_at ''b1'' ''a.py'' 1 True]\<rparr>"

text \<open>
  An attempt in which nothing is fixed: the scanner reports no bug as fixed already and
  the fix engineer applies no fix.  The same of the answers of an iteration of the
  orchestrator with fallback.
\<close>

definition no_fix_in_attempt :: "attempt_env \<Rightarrow> bool" where
  "no_fix_in_attempt e =
     ((case scan_outcome e of Inl msg \<Rightarrow> True | Inr bugs \<Rightarrow> \<not> list_ex fixed bugs)
      \<and> (case fix_outcome e of
            Inl msg \<Rightarrow> True
          | Inr fixResult \<Rightarrow> \<not> list_ex fx_applied (fx_results fixResult)))"

definition nothing_fixed_fallback :: "HealingBug list \<times> FixResult list \<Rightarrow> bool" where
  "nothing_fixed_fallback a = (\<not> list_ex fixed (fst a) \<and> \<not> list_ex fx_applied (snd a))"

text \<open>
  Further environments: the final test run passes; the scanner finds a bug in every
  attempt and no fix is applied; the fork is refused; a bug made from a test error is
  made again under a new identifier and the fix for the new identifier is applied.
\<close>

definition passed_final_env :: orch_env where
  "passed_final_env = partial_env\<lparr>finalTestPassed := True\<rparr>"

definition no_fix_env :: orch_env where
  "no_fix_env =
     first_pass_env\<lparr>attempt_envs :=
       (\<lambda>k. quiet_attempt\<lparr>
              scan_outcome := Inr [bug_at ''b1'' ''a.py'' 1 False],
              fix_outcome := Inr \<lparr> fx_results = [\<lparr> fx_applied = False, fx_filePath = ''a.py'',
                                                    fx_description = ''no patch'', fx_bugId = ''b1'' \<rparr>],
                                    fx_bugsFixed = 0, fx_filesChanged = 0 \<rparr>\<rparr>)\<rparr>"

definition refused_fork_env :: orch_env where
  "refused_fork_env = partial_env\<lparr>fork_calls := forbidden_fork_env\<rparr>"

definition no_fix_answers :: "nat \<Rightarrow> HealingBug list \<times> FixResult list" where
  "no_fix_answers k =
     ([bug_at ''b1'' ''a.py'' 1 False],
      [\<lparr> fx_applied = False, fx_filePath = ''a.py'', fx_description = ''no patch'',
         fx_bugId = ''b1'' \<rparr>])"

definition no_fix_session :: session where
  "no_fix_session =
     (initial_session {})\<lparr>allBugs := fallbackLoopBugs no_fix_answers attempt_numbers_fallback []\<rparr>"

definition error_at_x :: ParsedError where
  "error_at_x = \<lparr> e_filePath = ''src/x.ts'', e_line = 12, e_message = ''boom'', e_type = RUNTIME \<rparr>"

definition unrecorded_fix_env :: orch_env where
  "unrecorded_fix_env =
     first_pass_env\<lparr>attempt_envs :=
       (\<lambda>k. if k = 1
            then quiet_attempt\<lparr>test_errors := [error_at_x], uuids := (\<lambda>i. ''u1'')\<rparr>
            else quiet_attempt\<lparr>
                   test_errors := [error_at_x], uuids := (\<lambda>i. ''u2''),
                   fix_outcome := Inr \<lparr> fx_results = [\<lparr> fx_applied = True, fx_filePath = ''src/x.ts'',
                                                         fx_description = ''patched'', fx_bugId = ''u2'' \<rparr>],
                                         fx_bugsFixed = 1, fx_filesChanged = 1 \<rparr>,
                   commit_outcome := Inr (Some ''abc1234'')\<rparr>)\<rparr>"

section \<open>Properties of the score\<close>

lemma Math_round_mono: "x \<le> y \<Longrightarrow> Math_round x \<le> Math_round y"
  unfolding Math_round_def by (intro floor_mono) simp

lemma ratio_mono:
  fixes a b n :: int
  assumes "a \<le> b" and "0 < n"
  shows "(of_int a / of_int n :: rat) * 60 \<le> (of_int b / of_int n) * 60"
proof -
  have "(of_int a :: rat) \<le> of_int b" using assms(1) by simp
  moreover have "(0::rat) < of_int n" using assms(2) by simp
  ultimately have "(of_int a / of_int n :: rat) \<le> of_int b / of_int n"
    by (simp add: divide_right_mono)
  then show ?thesis by (rule mult_right_mono) simp
qed

text \<open>
  C1.  For every bug list, tests-passed flag, attempt count, commit count and elapsed
  time, the score record returned by \<open>calculateScore\<close> follows the fixed formula:
  the final score is the clamp to 0..100 of base plus speed bonus minus commit penalty,
  where the base is the rounded 60-point share of fixed bugs (0 for an empty list) plus 20
  for passing tests plus the 10/5/0 attempts bonus, the speed bonus is 10 under 300
  seconds, and the commit penalty is the number of commits beyond 20.
\<close>

lemma score_fields:
  "totalBugs (calculateScore bugs tp n_att commits elapsed) = int (length bugs)"
  "bugsFixed (calculateScore bugs tp n_att commits elapsed) = int (length (filter fixed bugs))"
  "speedBonus (calculateScore bugs tp n_att commits elapsed)
     = (if elapsed < 300 then 10 else 0)"
  "commitPenalty (calculateScore bugs tp n_att commits elapsed)
     = (if commits > 20 then commits - 20 else 0)"
  by (simp_all only: calculateScore_def Let_def HealingScore.simps
      SPEED_BONUS_THRESHOLD_SEC_def MAX_COMMITS_PENALTY_THRESHOLD_def)

lemma score_final:
  "finalScore (calculateScore bugs tp n_att commits elapsed)
     = max 0 (min 100 (base_of bugs + bonus_of tp n_att
          + (if elapsed < 300 then 10 else 0) - (if commits > 20 then commits - 20 else 0)))"
proof -
  have "finalScore (calculateScore bugs tp n_att commits elapsed)
     = max 0 (min 100 ((if n_att \<le> 2 then (if tp then base_of bugs + 20 else base_of bugs) + 10
                       else if n_att \<le> 3 then (if tp then base_of bugs + 20 else base_of bugs) + 5
                       else (if tp then base_of bugs + 20 else base_of bugs))
          + (if elapsed < 300 then 10 else 0) - (if commits > 20 then commits - 20 else 0)))"
    by (simp only: calculateScore_def Let_def HealingScore.simps base_of_def
        SPEED_BONUS_THRESHOLD_SEC_def MAX_COMMITS_PENALTY_THRESHOLD_def)
  also have "(if n_att \<le> 2 then (if tp then base_of bugs + 20 else base_of bugs) + 10
                       else if n_att \<le> 3 then (if tp then base_of bugs + 20 else base_of bugs) + 5
                       else (if tp then base_of bugs + 20 else base_of bugs))
             = base_of bugs + bonus_of tp n_att"
    by (simp add: bonus_of_def)
  finally show ?thesis .
qed

lemma base_of_mono:
  assumes "length bs1 = length bs2"
    and "length (filter fixed bs1) \<le> length (filter fixed bs2)"
  shows "base_of bs1 \<le> base_of bs2"
proof (cases "int (length bs1) > 0")
  case True
  have "(of_int (int (length (filter fixed bs1))) / of_int (int (length bs1)) :: rat) * 60
        \<le> (of_int (int (length (filter fixed bs2))) / of_int (int (length bs1))) * 60"
    using assms(2) True by (intro ratio_mono) simp_all
  then show ?thesis
    using True assms(1) by (simp add: base_of_def Math_round_mono)
next
  case False
  then show ?thesis using assms(1) by (simp add: base_of_def)
qed

text \<open>
  C1.  For every bug list, tests-passed flag, attempt count, commit count and elapsed
  time, the score record returned by \<open>calculateScore\<close> follows the fixed formula:
  the final score is the clamp to 0..100 of base plus speed bonus minus commit penalty,
  where the base is the rounded 60-point share of fixed bugs (0 for an empty list) plus 20
  for passing tests plus the 10/5/0 attempts bonus, the speed bonus is 10 under 300
  seconds, and the commit penalty is the number of commits beyond 20.
\<close>

theorem calculateScore_formula:
  "finalScore (calculateScore bugs tp n_att commits elapsed)
     = spec_final (int (length (filter fixed bugs))) (int (length bugs)) tp n_att commits elapsed
   \<and> speedBonus (calculateScore bugs tp n_att commits elapsed) = spec_speedBonus elapsed
   \<and> commitPenalty (calculateScore bugs tp n_att commits elapsed) = spec_commitPenalty commits
   \<and> totalBugs (calculateScore bugs tp n_att commits elapsed) = int (length bugs)
   \<and> bugsFixed (calculateScore bugs tp n_att commits elapsed) = int (length (filter fixed bugs))"
proof -
  have base: "spec_base (int (length (filter fixed bugs))) (int (length bugs)) tp n_att
              = base_of bugs + bonus_of tp n_att"
    by (simp add: spec_base_def base_of_def bonus_of_def Math_round_def round_def)
  have clamp: "spec_clamp x 0 100 = max 0 (min 100 x)" for x
    by (simp add: spec_clamp_def)
  have pen: "spec_commitPenalty commits = (if commits > 20 then commits - 20 else 0)"
    by (simp add: spec_commitPenalty_def)
  have "finalScore (calculateScore bugs tp n_att commits elapsed)
     = spec_final (int (length (filter fixed bugs))) (int (length bugs)) tp n_att commits elapsed"
    unfolding score_final spec_final_def base clamp pen spec_speedBonus_def ..
  then show ?thesis
    by (simp only: score_fields pen spec_speedBonus_def simp_thms)
qed

text \<open>
  C8.  Holding the tests-passed flag, the attempt count, the commit count and the elapsed
  time constant, the final score does not decrease when, between two bug lists of the same
  length, the number of fixed entries does not decrease; and for every input whatsoever
  the final score lies between 0 and 100.
\<close>

theorem calculateScore_monotone_bounded:
  "(length bs1 = length bs2 \<longrightarrow> length (filter fixed bs1) \<le> length (filter fixed bs2) \<longrightarrow>
      finalScore (calculateScore bs1 tp n_att commits elapsed)
        \<le> finalScore (calculateScore bs2 tp n_att commits elapsed))
   \<and> 0 \<le> finalScore (calculateScore bugs tp' n_att' commits' elapsed')
   \<and> finalScore (calculateScore bugs tp' n_att' commits' elapsed') \<le> 100"
proof (intro conjI impI)
  assume "length bs1 = length bs2" and "length (filter fixed bs1) \<le> length (filter fixed bs2)"
  then have "base_of bs1 \<le> base_of bs2" by (rule base_of_mono)
  then show "finalScore (calculateScore bs1 tp n_att commits elapsed)
        \<le> finalScore (calculateScore bs2 tp n_att commits elapsed)"
    unfolding score_final by (intro max.mono min.mono) simp_all
next
  show "0 \<le> finalScore (calculateScore bugs tp' n_att' commits' elapsed')"
    unfolding score_final by simp
next
  show "finalScore (calculateScore bugs tp' n_att' commits' elapsed') \<le> 100"
    unfolding score_final by simp
qed

lemma Math_round_ratio:
  fixes a b :: int assumes "0 < b"
  shows "Math_round ((of_int a / of_int b) * 60) = (120 * a + b) div (2 * b)"
proof -
  have "(of_int a / of_int b :: rat) * 60 + 1 / 2 = of_int (120 * a + b) / of_int (2 * b)"
    using assms by (simp add: field_simps)
  then show ?thesis
    unfolding Math_round_def by (simp only: floor_divide_of_int_eq)
qed

theorem calculateScore_monotone_bounded_witness:
  "length [bug_at ''1'' ''a.py'' 1 False, bug_at ''2'' ''b.py'' 2 False]
     = length [bug_at ''1'' ''a.py'' 1 True, bug_at ''2'' ''b.py'' 2 False]
   \<and> length (filter fixed [bug_at ''1'' ''a.py'' 1 False, bug_at ''2'' ''b.py'' 2 False])
       \<le> length (filter fixed [bug_at ''1'' ''a.py'' 1 True, bug_at ''2'' ''b.py'' 2 False])
   \<and> finalScore (calculateScore [bug_at ''1'' ''a.py'' 1 False, bug_at ''2'' ''b.py'' 2 False] False 3 0 10)
       \<le> finalScore (calculateScore [bug_at ''1'' ''a.py'' 1 True, bug_at ''2'' ''b.py'' 2 False] False 3 0 10)
   \<and> 0 \<le> finalScore (calculateScore [] True 1 1000 10)
   \<and> finalScore (calculateScore [] True 1 1000 10) \<le> 100"
proof -
  let ?bs1 = "[bug_at ''1'' ''a.py'' 1 False, bug_at ''2'' ''b.py'' 2 False]"
  let ?bs2 = "[bug_at ''1'' ''a.py'' 1 True, bug_at ''2'' ''b.py'' 2 False]"
  note T = calculateScore_monotone_bounded [of ?bs1 ?bs2 False 3 0 10 "[]" True 1 1000 10]
  have h1: "length ?bs1 = length ?bs2" by simp
  have h2: "length (filter fixed ?bs1) \<le> length (filter fixed ?bs2)"
    by (simp add: bug_at_def)
  have c1: "finalScore (calculateScore ?bs1 False 3 0 10) \<le> finalScore (calculateScore ?bs2 False 3 0 10)"
    using T h1 h2 by (elim conjE impE)
  have c2: "0 \<le> finalScore (calculateScore [] True 1 1000 10)"
    using T by (elim conjE)
  have c3: "finalScore (calculateScore [] True 1 1000 10) \<le> 100"
    using T by (elim conjE)
  show ?thesis by (intro conjI h1 h2 c1 c2 c3)
qed

section \<open>Properties of the branch name\<close>

lemmas name_defs = getHealingBranchName_def normalize_name_def strip_non_branch_def
  toUpperCase_def toUpperCase_cp_def is_space_def is_branch_char_def js_def BRANCH_SUFFIX_def

lemma is_space_spec: "is_space c = spec_white_space c"
  unfolding is_space_def spec_white_space_def by (simp; arith)

lemma is_branch_char_spec: "is_branch_char c = spec_branch_char c"
  unfolding is_branch_char_def spec_branch_char_def
  by (simp add: js_def upper_letters_def digit_chars_def; arith)

lemma collapse_spec:
  "spec_collapse_from False s = replace_space_runs s
   \<and> spec_collapse_from True s = replace_space_runs (dropWhile is_space s)"
proof (induction s)
  case Nil
  show ?case by simp
next
  case (Cons c cs)
  show ?case
  proof (cases "is_space c")
    case True
    then show ?thesis using Cons by (simp add: is_space_spec [symmetric] js_def)
  next
    case False
    then show ?thesis using Cons by (simp add: is_space_spec [symmetric])
  qed
qed

lemma replace_space_runs_spec: "replace_space_runs s = spec_collapse s"
  by (simp add: spec_collapse_def collapse_spec)

lemma upper_ascii:
  "0 \<le> c \<and> c < 128 \<Longrightarrow> toUpperCase_cp unicode_upper c = [spec_upper_case c]"
  unfolding toUpperCase_cp_def spec_upper_case_def
  by (simp add: js_def upper_letters_def lower_letters_def; arith)

lemma toUpperCase_ascii:
  "is_ascii s \<Longrightarrow> toUpperCase unicode_upper s = map spec_upper_case s"
  by (induction s) (simp_all add: toUpperCase_def is_ascii_def upper_ascii)

lemma upper_space: "is_space (spec_upper_case c) = is_space c"
  unfolding is_space_def spec_upper_case_def
  by (simp add: js_def upper_letters_def lower_letters_def)

lemma upper_branch_char: "is_branch_char (spec_upper_case c) = spec_alnum_underscore c"
  unfolding is_branch_char_def spec_upper_case_def spec_alnum_underscore_def
  by (simp add: js_def upper_letters_def lower_letters_def digit_chars_def; arith)

lemma upper_underscore: "spec_upper_case 95 = 95"
  by (simp add: spec_upper_case_def js_def upper_letters_def lower_letters_def)

lemma replace_space_runs_upper:
  "replace_space_runs (map spec_upper_case s) = map spec_upper_case (replace_space_runs s)"
proof (induction s rule: replace_space_runs.induct)
  case 1
  show ?case by simp
next
  case (2 c cs)
  have dw: "dropWhile is_space (map spec_upper_case cs) = map spec_upper_case (dropWhile is_space cs)"
    by (induction cs) (simp_all add: upper_space)
  show ?case
  proof (cases "is_space c")
    case True
    with 2 show ?thesis
      by (simp add: upper_space dw upper_underscore)
  next
    case False
    with 2 show ?thesis
      by (simp add: upper_space)
  qed
qed

lemma normalize_name_ascii:
  assumes "is_ascii s"
  shows "normalize_name unicode_upper s = spec_normalize_name s"
proof -
  have "normalize_name unicode_upper s
          = filter is_branch_char (map spec_upper_case (replace_space_runs s))"
    by (simp add: normalize_name_def strip_non_branch_def toUpperCase_ascii [OF assms]
        replace_space_runs_upper)
  also have "\<dots> = map spec_upper_case (filter spec_alnum_underscore (replace_space_runs s))"
    by (simp add: filter_map comp_def upper_branch_char)
  finally show ?thesis by (simp add: spec_normalize_name_def replace_space_runs_spec)
qed

lemma normalize_name_general:
  "normalize_name unicode_upper s
     = filter spec_branch_char (spec_collapse (toUpperCase unicode_upper s))"
proof -
  have "is_branch_char = spec_branch_char"
    by (rule ext) (rule is_branch_char_spec)
  then show ?thesis
    by (simp add: normalize_name_def strip_non_branch_def replace_space_runs_spec)
qed

lemma branch_chars: "list_all spec_branch_char (normalize_name unicode_upper s)"
  by (simp add: normalize_name_general list_all_iff)

text \<open>
  C9.  \<open>getHealingBranchName\<close> normalises the team and the leader name and appends
  \<open>_AI_Fix\<close>.  On \<open>"tech chaos"\<close> and \<open>"Anurag Mishra!"\<close> it returns
  \<open>TECH_CHAOS_ANURAG_MISHRA_AI_Fix\<close>, and a run of two spaces gives one underscore.  For
  ASCII names the result is the two names normalised as the specification words it
  (white space collapsed to underscores, everything but letters, digits and underscores
  stripped, upper case), joined by underscores.  For every pair of names, with whatever
  Unicode table, the result is the upper-cased names with white space collapsed and
  everything but \<open>A-Z\<close>, \<open>0-9\<close> and the underscore stripped, and what precedes the suffix
  consists of upper-case letters, digits and underscores only.
\<close>

theorem getHealingBranchName_contract:
  "getHealingBranchName unicode_upper (js ''tech chaos'') (js ''Anurag Mishra!'')
     = js ''TECH_CHAOS_ANURAG_MISHRA_AI_Fix''
   \<and> getHealingBranchName unicode_upper (js ''tech  chaos'') (js ''x'') = js ''TECH_CHAOS_X_AI_Fix''
   \<and> (is_ascii team \<and> is_ascii leader \<longrightarrow>
        getHealingBranchName unicode_upper team leader
          = spec_normalize_name team @ js ''_'' @ spec_normalize_name leader @ js ''_AI_Fix'')
   \<and> getHealingBranchName unicode_upper team leader
        = filter spec_branch_char (spec_collapse (toUpperCase unicode_upper team)) @ js ''_''
          @ filter spec_branch_char (spec_collapse (toUpperCase unicode_upper leader))
          @ js ''_AI_Fix''
   \<and> (\<exists>body. getHealingBranchName unicode_upper team leader = body @ js ''_AI_Fix''
          \<and> list_all spec_branch_char body)"
proof (intro conjI impI)
  show "getHealingBranchName unicode_upper (js ''tech chaos'') (js ''Anurag Mishra!'')
     = js ''TECH_CHAOS_ANURAG_MISHRA_AI_Fix''"
    by (simp add: name_defs)
  show "getHealingBranchName unicode_upper (js ''tech  chaos'') (js ''x'') = js ''TECH_CHAOS_X_AI_Fix''"
    by (simp add: name_defs)
  show "getHealingBranchName unicode_upper team leader
          = spec_normalize_name team @ js ''_'' @ spec_normalize_name leader @ js ''_AI_Fix''"
    if "is_ascii team \<and> is_ascii leader"
    using that by (simp add: getHealingBranchName_def normalize_name_ascii BRANCH_SUFFIX_def js_def)
  show "getHealingBranchName unicode_upper team leader
        = filter spec_branch_char (spec_collapse (toUpperCase unicode_upper team)) @ js ''_''
          @ filter spec_branch_char (spec_collapse (toUpperCase unicode_upper leader))
          @ js ''_AI_Fix''"
    by (simp add: getHealingBranchName_def normalize_name_general BRANCH_SUFFIX_def js_def)
  have "getHealingBranchName unicode_upper team leader
          = (normalize_name unicode_upper team @ js ''_'' @ normalize_name unicode_upper leader)
            @ js ''_AI_Fix''"
    by (simp add: getHealingBranchName_def BRANCH_SUFFIX_def js_def)
  moreover have "list_all spec_branch_char
      (normalize_name unicode_upper team @ js ''_'' @ normalize_name unicode_upper leader)"
    by (simp add: branch_chars spec_branch_char_def js_def)
  ultimately show "\<exists>body. getHealingBranchName unicode_upper team leader = body @ js ''_AI_Fix''
          \<and> list_all spec_branch_char body"
    by (rule_tac x = "normalize_name unicode_upper team @ js ''_'' @ normalize_name unicode_upper leader" in exI) simp
qed

text \<open>The theorem on two ASCII names with punctuation and a run of spaces.\<close>

theorem getHealingBranchName_contract_witness:
  "is_ascii (js ''Team #7'') \<and> is_ascii (js ''o'neil  jr'')
   \<and> getHealingBranchName (\<lambda>c. [c]) (js ''Team #7'') (js ''o'neil  jr'') = js ''TEAM_7_ONEIL_JR_AI_Fix''
   \<and> spec_normalize_name (js ''Team #7'') @ js ''_'' @ spec_normalize_name (js ''o'neil  jr'') @ js ''_AI_Fix''
        = js ''TEAM_7_ONEIL_JR_AI_Fix''"
proof -
  have a: "is_ascii (js ''Team #7'') \<and> is_ascii (js ''o'neil  jr'')"
    by (simp add: is_ascii_def js_def)
  have v: "spec_normalize_name (js ''Team #7'') @ js ''_'' @ spec_normalize_name (js ''o'neil  jr'') @ js ''_AI_Fix''
        = js ''TEAM_7_ONEIL_JR_AI_Fix''"
    by (simp add: spec_normalize_name_def spec_collapse_def spec_white_space_def
        spec_alnum_underscore_def spec_upper_case_def js_def lower_letters_def upper_letters_def
        digit_chars_def)
  note T = getHealingBranchName_contract [where unicode_upper = "\<lambda>c. [c]"
      and team = "js ''Team #7''" and leader = "js ''o'neil  jr''"]
  from T have "getHealingBranchName (\<lambda>c. [c]) (js ''Team #7'') (js ''o'neil  jr'')
       = spec_normalize_name (js ''Team #7'') @ js ''_'' @ spec_normalize_name (js ''o'neil  jr'') @ js ''_AI_Fix''"
    using a by (elim conjE) simp
  with a v show ?thesis by simp
qed

text \<open>
  Beyond ASCII: with the entry of the Unicode table for U+00DF, the two letters it gives
  stay in the name; a no-break space is white space.
\<close>

lemma getHealingBranchName_beyond_ascii:
  "getHealingBranchName (\<lambda>c. if c = 0xDF then js ''SS'' else [c])
       (js ''stra'' @ [0xDF] @ js ''e'') (js ''x'') = js ''STRASSE_X_AI_Fix''
   \<and> getHealingBranchName (\<lambda>c. [c]) (js ''a'' @ [0xA0] @ js ''b'') (js ''x'') = js ''A_B_X_AI_Fix''"
  by (simp add: name_defs)


section \<open>Properties of \<open>parseGitHubUrl\<close>\<close>

lemma lazy_repo_git_run:
  assumes "CHR ''/'' \<notin> set r" "CHR ''.'' \<notin> set r" "acc @ r \<noteq> []" "sfx = [] \<or> sfx = ''.git''"
  shows "lazy_repo_git acc (r @ sfx) = Some (acc @ r)"
  using assms
proof (induction r arbitrary: acc)
  case Nil
  then show ?case by (subst lazy_repo_git.simps) auto
next
  case (Cons c cs)
  have "lazy_repo_git acc ((c # cs) @ sfx) = lazy_repo_git (acc @ [c]) (cs @ sfx)"
    using Cons.prems by (subst lazy_repo_git.simps) auto
  also have "\<dots> = Some ((acc @ [c]) @ cs)"
    using Cons.prems by (intro Cons.IH) auto
  finally show ?case by simp
qed

lemma lazy_repo_slash_run:
  assumes "CHR ''/'' \<notin> set r" "acc @ r \<noteq> []" "sfx = [] \<or> sfx = ''/''"
  shows "lazy_repo_slash acc (r @ sfx) = Some (acc @ r)"
  using assms
proof (induction r arbitrary: acc)
  case Nil
  then show ?case by (subst lazy_repo_slash.simps) auto
next
  case (Cons c cs)
  have "lazy_repo_slash acc ((c # cs) @ sfx) = lazy_repo_slash (acc @ [c]) (cs @ sfx)"
    using Cons.prems by (subst lazy_repo_slash.simps) auto
  also have "\<dots> = Some ((acc @ [c]) @ cs)"
    using Cons.prems by (intro Cons.IH) auto
  finally show ?case by simp
qed

lemma match_here_owner_repo:
  assumes "valid_owner owner" and "rm [] rest = Some repo"
  shows "match_here rm (''github.com/'' @ owner @ ''/'' @ rest) = Some (owner, repo)"
proof -
  have tw: "takeWhile (\<lambda>c. c \<noteq> CHR ''/'') (owner @ CHR ''/'' # rest) = owner"
    using assms(1) by (auto simp: valid_owner_def takeWhile_tail)
  have dw: "dropWhile (\<lambda>c. c \<noteq> CHR ''/'') (owner @ CHR ''/'' # rest) = CHR ''/'' # rest"
    using assms(1) by (auto simp: valid_owner_def dropWhile_append)
  show ?thesis
    using assms by (simp add: match_here_def starts_with_def tw dw valid_owner_def)
qed

lemma match_here_git:
  assumes "valid_owner owner" "valid_repo repo" "sfx = [] \<or> sfx = ''.git''"
  shows "match_here lazy_repo_git (''github.com/'' @ owner @ ''/'' @ repo @ sfx) = Some (owner, repo)"
proof -
  have "lazy_repo_git [] (repo @ sfx) = Some ([] @ repo)"
    using assms by (intro lazy_repo_git_run) (auto simp: valid_repo_def)
  then show ?thesis
    using match_here_owner_repo [OF assms(1), of lazy_repo_git "repo @ sfx" repo] by simp
qed

lemma match_here_slash:
  assumes "valid_owner owner" "repo \<noteq> []" "CHR ''/'' \<notin> set repo" "sfx = [] \<or> sfx = ''/''"
  shows "match_here lazy_repo_slash (''github.com/'' @ owner @ ''/'' @ repo @ sfx) = Some (owner, repo)"
proof -
  have "lazy_repo_slash [] (repo @ sfx) = Some ([] @ repo)"
    using assms by (intro lazy_repo_slash_run) auto
  then show ?thesis
    using match_here_owner_repo [OF assms(1), of lazy_repo_slash "repo @ sfx" repo] by simp
qed

lemma regex_search_here:
  "m s = Some r \<Longrightarrow> regex_search m s = Some r"
  by (cases s) auto

lemma regex_search_finds:
  "m s = Some r \<Longrightarrow> \<exists>r'. regex_search m (pre @ s) = Some r'"
proof (induction pre)
  case Nil
  then show ?case by (auto simp: regex_search_here)
next
  case (Cons c pre)
  then show ?case by (cases "m (c # pre @ s)") auto
qed

lemma match_here_no_prefix:
  "\<not> starts_with s ''github.com/'' \<Longrightarrow> match_here rm s = None"
  by (simp only: match_here_def if_False)

lemma parse_of_search:
  "regex_search (match_here lazy_repo_git) url = Some r \<Longrightarrow> parseGitHubUrl url = Inr r"
  by (simp only: parseGitHubUrl_def option.case)

lemma ends_with_append: "ends_with (p @ e) e"
  by (simp add: ends_with_def)

lemma valid_repo_plain: "valid_repo r \<Longrightarrow> plain_name r"
proof -
  assume v: "valid_repo r"
  have "\<not> ends_with r ''.git''"
  proof
    assume "ends_with r ''.git''"
    then have "drop (length r - length ''.git'') r = ''.git''"
      unfolding ends_with_def by (rule conjunct2)
    then have "CHR ''.'' \<in> set (drop (length r - length ''.git'') r)" by (simp only:) simp
    then have "CHR ''.'' \<in> set r" by (rule in_set_dropD)
    with v show False by (simp add: valid_repo_def)
  qed
  with v show ?thesis by (simp add: plain_name_def valid_repo_def)
qed

lemma lazy_repo_git_shape:
  "lazy_repo_git acc rest = Some r \<Longrightarrow>
   \<exists>x sfx. rest = x @ sfx \<and> r = acc @ x \<and> CHR ''/'' \<notin> set x \<and> CHR ''.'' \<notin> set x
      \<and> r \<noteq> [] \<and> (sfx = [] \<or> sfx = ''.git'')"
proof (induction acc rest rule: lazy_repo_git.induct)
  case (1 acc rest)
  show ?case
  proof (cases "acc \<noteq> [] \<and> (rest = ''.git'' \<or> rest = [])")
    case True
    with "1.prems" have "r = acc" by (subst (asm) lazy_repo_git.simps) simp
    moreover from True have "rest = [] \<or> rest = ''.git''" by (elim conjE disjE) simp_all
    ultimately have "rest = [] @ rest \<and> r = acc @ [] \<and> CHR ''/'' \<notin> set [] \<and> CHR ''.'' \<notin> set []
      \<and> r \<noteq> [] \<and> (rest = [] \<or> rest = ''.git'')" using True by simp
    then show ?thesis by (intro exI)
  next
    case False
    then have unf: "lazy_repo_git acc rest =
        (case rest of [] \<Rightarrow> None
         | c # cs \<Rightarrow> if c \<noteq> CHR ''/'' \<and> c \<noteq> CHR ''.'' then lazy_repo_git (acc @ [c]) cs else None)"
      by (subst lazy_repo_git.simps) (simp only: if_False)
    show ?thesis
    proof (cases rest)
      case Nil
      with unf have "lazy_repo_git acc rest = None" by simp
      with "1.prems" show ?thesis by simp
    next
      case (Cons c cs)
      show ?thesis
      proof (cases "c \<noteq> CHR ''/'' \<and> c \<noteq> CHR ''.''")
        case ok: True
        then have c1: "c \<noteq> CHR ''/''" and c2: "c \<noteq> CHR ''.''" by simp_all
        from unf Cons c1 c2 have "lazy_repo_git acc rest = lazy_repo_git (acc @ [c]) cs" by simp
        with "1.prems" have "lazy_repo_git (acc @ [c]) cs = Some r" by simp
        from "1.IH" [OF False Cons ok this]
        obtain x sfx where "cs = x @ sfx" "r = (acc @ [c]) @ x" "CHR ''/'' \<notin> set x"
          "CHR ''.'' \<notin> set x" "r \<noteq> []" "sfx = [] \<or> sfx = ''.git''"
          by (elim exE conjE)
        with Cons c1 c2 have "rest = (c # x) @ sfx \<and> r = acc @ (c # x) \<and> CHR ''/'' \<notin> set (c # x)
          \<and> CHR ''.'' \<notin> set (c # x) \<and> r \<noteq> [] \<and> (sfx = [] \<or> sfx = ''.git'')"
          by (simp add: neq_commute)
        then show ?thesis by (intro exI)
      next
        case bad: False
        with unf Cons have "lazy_repo_git acc rest = None" by (simp only: list.case if_False)
        with "1.prems" show ?thesis by simp
      qed
    qed
  qed
qed

lemma lazy_repo_slash_shape:
  "lazy_repo_slash acc rest = Some r \<Longrightarrow>
   \<exists>x sfx. rest = x @ sfx \<and> r = acc @ x \<and> CHR ''/'' \<notin> set x
      \<and> r \<noteq> [] \<and> (sfx = [] \<or> sfx = ''/'')"
proof (induction acc rest rule: lazy_repo_slash.induct)
  case (1 acc rest)
  show ?case
  proof (cases "acc \<noteq> [] \<and> (rest = ''/'' \<or> rest = [])")
    case True
    with "1.prems" have "r = acc" by (subst (asm) lazy_repo_slash.simps) simp
    moreover from True have "rest = [] \<or> rest = ''/''" by (elim conjE disjE) simp_all
    ultimately have "rest = [] @ rest \<and> r = acc @ [] \<and> CHR ''/'' \<notin> set []
      \<and> r \<noteq> [] \<and> (rest = [] \<or> rest = ''/'')" using True by simp
    then show ?thesis by (intro exI)
  next
    case False
    then have unf: "lazy_repo_slash acc rest =
        (case rest of [] \<Rightarrow> None
         | c # cs \<Rightarrow> if c \<noteq> CHR ''/'' then lazy_repo_slash (acc @ [c]) cs else None)"
      by (subst lazy_repo_slash.simps) (simp only: if_False)
    show ?thesis
    proof (cases rest)
      case Nil
      with unf have "lazy_repo_slash acc rest = None" by simp
      with "1.prems" show ?thesis by simp
    next
      case (Cons c cs)
      show ?thesis
      proof (cases "c \<noteq> CHR ''/''")
        case ok: True
        from unf Cons ok have "lazy_repo_slash acc rest = lazy_repo_slash (acc @ [c]) cs" by simp
        with "1.prems" have "lazy_repo_slash (acc @ [c]) cs = Some r" by simp
        from "1.IH" [OF False Cons ok this]
        obtain x sfx where "cs = x @ sfx" "r = (acc @ [c]) @ x" "CHR ''/'' \<notin> set x"
          "r \<noteq> []" "sfx = [] \<or> sfx = ''/''"
          by (elim exE conjE)
        with Cons ok have "rest = (c # x) @ sfx \<and> r = acc @ (c # x) \<and> CHR ''/'' \<notin> set (c # x)
          \<and> r \<noteq> [] \<and> (sfx = [] \<or> sfx = ''/'')"
          by (simp add: neq_commute)
        then show ?thesis by (intro exI)
      next
        case bad: False
        with unf Cons have "lazy_repo_slash acc rest = None" by (simp only: list.case if_False)
        with "1.prems" show ?thesis by simp
      qed
    qed
  qed
qed

lemma match_here_shape:
  assumes "match_here rm s = Some (ow, r)"
  shows "\<exists>rest. s = ''github.com/'' @ ow @ ''/'' @ rest \<and> valid_owner ow \<and> rm [] rest = Some r"
proof -
  define r0 where "r0 = drop 11 s"
  define aft where "aft = dropWhile (\<lambda>c. c \<noteq> CHR ''/'') r0"
  define own where "own = takeWhile (\<lambda>c. c \<noteq> CHR ''/'') r0"
  have sw: "starts_with s ''github.com/''"
  proof (rule ccontr)
    assume "\<not> starts_with s ''github.com/''"
    then have "match_here rm s = None" by (rule match_here_no_prefix)
    with assms show False by simp
  qed
  then have "take (length ''github.com/'') s = ''github.com/''" by (simp only: starts_with_def)
  moreover have "length ''github.com/'' = 11" by simp
  ultimately have "take 11 s = ''github.com/''" by (simp only:)
  then have s: "s = ''github.com/'' @ r0"
    unfolding r0_def by (metis append_take_drop_id)
  from assms sw have m: "(if own = [] \<or> aft = [] then None
        else (case rm [] (tl aft) of None \<Rightarrow> None | Some repo \<Rightarrow> Some (own, repo))) = Some (ow, r)"
    unfolding match_here_def own_def aft_def r0_def by (simp only: if_True Let_def)
  then have ne: "own \<noteq> []" "aft \<noteq> []" by (auto split: if_splits)
  with m have m2: "(case rm [] (tl aft) of None \<Rightarrow> None | Some repo \<Rightarrow> Some (own, repo)) = Some (ow, r)"
    by simp
  then have ow: "own = ow" and rr: "rm [] (tl aft) = Some r"
    by (auto split: option.splits)
  have "hd aft = CHR ''/''"
    using ne(2) hd_dropWhile [of "\<lambda>c. c \<noteq> CHR ''/''" r0] unfolding aft_def by simp
  with ne(2) have aft: "aft = CHR ''/'' # tl aft" by (cases aft) simp_all
  have "r0 = own @ aft" unfolding own_def aft_def by simp
  with aft ow have r0: "r0 = ow @ ''/'' @ tl aft" by simp
  have "CHR ''/'' \<notin> set own"
    unfolding own_def by (auto dest: set_takeWhileD)
  with ne(1) ow have vo: "valid_owner ow" by (simp add: valid_owner_def)
  from s r0 have "s = ''github.com/'' @ ow @ ''/'' @ tl aft" by simp
  with vo rr have "s = ''github.com/'' @ ow @ ''/'' @ tl aft \<and> valid_owner ow \<and> rm [] (tl aft) = Some r"
    by (intro conjI)
  then show ?thesis by (rule exI)
qed

lemma regex_search_shape:
  "regex_search m s = Some v \<Longrightarrow> \<exists>p t. s = p @ t \<and> m t = Some v"
proof (induction s)
  case Nil
  then have "[] = [] @ [] \<and> m [] = Some v" by simp
  then show ?case by (intro exI)
next
  case (Cons c cs)
  show ?case
  proof (cases "m (c # cs)")
    case None
    with Cons.prems have "regex_search m cs = Some v" by simp
    from Cons.IH [OF this] obtain p t where "cs = p @ t" "m t = Some v" by (elim exE conjE)
    then have "c # cs = (c # p) @ t \<and> m t = Some v" by simp
    then show ?thesis by (intro exI)
  next
    case (Some w)
    with Cons.prems have "w = v" by simp
    with Some have "c # cs = [] @ (c # cs) \<and> m (c # cs) = Some v" by simp
    then show ?thesis by (intro exI)
  qed
qed

text \<open>What a match of either pattern says about the whole string.\<close>

lemma search_git_shape:
  assumes "regex_search (match_here lazy_repo_git) url = Some (ow, r)"
  shows "\<exists>p sfx. url = p @ ''github.com/'' @ ow @ ''/'' @ r @ sfx \<and> valid_owner ow \<and> valid_repo r
           \<and> (sfx = [] \<or> sfx = ''.git'')"
proof -
  from regex_search_shape [OF assms] obtain p t
    where u: "url = p @ t" and m: "match_here lazy_repo_git t = Some (ow, r)" by (elim exE conjE)
  from match_here_shape [OF m] obtain rest
    where t: "t = ''github.com/'' @ ow @ ''/'' @ rest" and vo: "valid_owner ow"
      and l: "lazy_repo_git [] rest = Some r" by (elim exE conjE)
  from lazy_repo_git_shape [OF l] obtain x sfx
    where "rest = x @ sfx" "r = [] @ x" "CHR ''/'' \<notin> set x" "CHR ''.'' \<notin> set x" "r \<noteq> []"
      "sfx = [] \<or> sfx = ''.git''" by (elim exE conjE)
  with u t vo have "url = p @ ''github.com/'' @ ow @ ''/'' @ r @ sfx \<and> valid_owner ow \<and> valid_repo r
           \<and> (sfx = [] \<or> sfx = ''.git'')" by (simp add: valid_repo_def)
  then show ?thesis by (intro exI)
qed

lemma search_slash_shape:
  assumes "regex_search (match_here lazy_repo_slash) url = Some (ow, r)"
  shows "\<exists>p sfx. url = p @ ''github.com/'' @ ow @ ''/'' @ r @ sfx \<and> valid_owner ow
           \<and> r \<noteq> [] \<and> CHR ''/'' \<notin> set r \<and> (sfx = [] \<or> sfx = ''/'')"
proof -
  from regex_search_shape [OF assms] obtain p t
    where u: "url = p @ t" and m: "match_here lazy_repo_slash t = Some (ow, r)" by (elim exE conjE)
  from match_here_shape [OF m] obtain rest
    where t: "t = ''github.com/'' @ ow @ ''/'' @ rest" and vo: "valid_owner ow"
      and l: "lazy_repo_slash [] rest = Some r" by (elim exE conjE)
  from lazy_repo_slash_shape [OF l] obtain x sfx
    where "rest = x @ sfx" "r = [] @ x" "CHR ''/'' \<notin> set x" "r \<noteq> []"
      "sfx = [] \<or> sfx = ''/''" by (elim exE conjE)
  with u t vo have "url = p @ ''github.com/'' @ ow @ ''/'' @ r @ sfx \<and> valid_owner ow
           \<and> r \<noteq> [] \<and> CHR ''/'' \<notin> set r \<and> (sfx = [] \<or> sfx = ''/'')" by simp
  then show ?thesis by (intro exI)
qed


text \<open>The last segment of a string, and the one before it, are determined.\<close>

lemma takeWhile_upto:
  "c \<notin> set u \<Longrightarrow> takeWhile (\<lambda>z. z \<noteq> c) (u @ c # w) = u"
  by (induction u) auto

lemma split_last_unique:
  assumes "c \<notin> set x" and "c \<notin> set y" and "a @ c # x = b @ c # y"
  shows "a = b \<and> x = y"
proof -
  from assms(3) have "rev (a @ c # x) = rev (b @ c # y)" by (simp only:)
  then have e: "rev x @ c # rev a = rev y @ c # rev b" by simp
  have "takeWhile (\<lambda>z. z \<noteq> c) (rev x @ c # rev a) = rev x"
    using assms(1) by (intro takeWhile_upto) simp
  moreover have "takeWhile (\<lambda>z. z \<noteq> c) (rev y @ c # rev b) = rev y"
    using assms(2) by (intro takeWhile_upto) simp
  ultimately have "rev x = rev y" using e by (simp only:)
  then have xy: "x = y" by simp
  with assms(3) have "a = b" by simp
  with xy show ?thesis by simp
qed

lemma url_shape_unique:
  assumes u1: "url = p @ ''github.com/'' @ ow @ ''/'' @ x @ e"
    and u2: "url = p' @ ''github.com/'' @ ow' @ ''/'' @ x' @ e'"
    and o1: "CHR ''/'' \<notin> set ow" and o2: "CHR ''/'' \<notin> set ow'"
    and x1: "x \<noteq> []" "CHR ''/'' \<notin> set x" and x2: "x' \<noteq> []" "CHR ''/'' \<notin> set x'"
    and e1: "e = [] \<or> e = ''/''" and e2: "e' = [] \<or> e' = ''/''"
  shows "ow = ow' \<and> x = x' \<and> e = e'"
proof -
  define a where "a = p @ ''github.com''"
  define b where "b = p' @ ''github.com''"
  have v1: "url = (a @ CHR ''/'' # ow) @ CHR ''/'' # x @ e"
    by (simp add: u1 a_def)
  have v2: "url = (b @ CHR ''/'' # ow') @ CHR ''/'' # x' @ e'"
    by (simp add: u2 b_def)
  have same: "ow = ow' \<and> x = x'"
    if eq: "(a @ CHR ''/'' # ow) @ CHR ''/'' # x = (b @ CHR ''/'' # ow') @ CHR ''/'' # x'"
  proof -
    from split_last_unique [OF x1(2) x2(2) eq]
    have h: "a @ CHR ''/'' # ow = b @ CHR ''/'' # ow'" and xx: "x = x'" by simp_all
    from split_last_unique [OF o1 o2 h] have "ow = ow'" by simp
    with xx show ?thesis by simp
  qed
  from e1 e2 consider (nn) "e = []" "e' = []" | (ss) "e = ''/''" "e' = ''/''"
    | (ns) "e = []" "e' = ''/''" | (sn) "e = ''/''" "e' = []"
    by (elim disjE) simp_all
  then show ?thesis
  proof cases
    case nn
    from v1 v2 nn have "(a @ CHR ''/'' # ow) @ CHR ''/'' # x = (b @ CHR ''/'' # ow') @ CHR ''/'' # x'"
      by simp
    from same [OF this] nn show ?thesis by simp
  next
    case ss
    from v1 ss have "url = ((a @ CHR ''/'' # ow) @ CHR ''/'' # x) @ ''/''" by simp
    moreover from v2 ss have "url = ((b @ CHR ''/'' # ow') @ CHR ''/'' # x') @ ''/''" by simp
    ultimately have "((a @ CHR ''/'' # ow) @ CHR ''/'' # x) @ ''/''
        = ((b @ CHR ''/'' # ow') @ CHR ''/'' # x') @ ''/''" by (simp only:)
    then have "(a @ CHR ''/'' # ow) @ CHR ''/'' # x = (b @ CHR ''/'' # ow') @ CHR ''/'' # x'"
      by (simp only: append_same_eq)
    from same [OF this] ss show ?thesis by simp
  next
    case ns
    from v1 ns have w1: "url = (a @ CHR ''/'' # ow) @ CHR ''/'' # x" by simp
    from v2 ns have w2: "url = (b @ CHR ''/'' # ow' @ CHR ''/'' # x') @ CHR ''/'' # []" by simp
    from w1 w2 have "(a @ CHR ''/'' # ow) @ CHR ''/'' # x
        = (b @ CHR ''/'' # ow' @ CHR ''/'' # x') @ CHR ''/'' # []" by (simp only:)
    from split_last_unique [OF x1(2) _ this] have "x = []" by simp
    with x1(1) show ?thesis by simp
  next
    case sn
    from v2 sn have w1: "url = (b @ CHR ''/'' # ow') @ CHR ''/'' # x'" by simp
    from v1 sn have w2: "url = (a @ CHR ''/'' # ow @ CHR ''/'' # x) @ CHR ''/'' # []" by simp
    from w1 w2 have "(b @ CHR ''/'' # ow') @ CHR ''/'' # x'
        = (a @ CHR ''/'' # ow @ CHR ''/'' # x) @ CHR ''/'' # []" by (simp only:)
    from split_last_unique [OF x2(2) _ this] have "x' = []" by simp
    with x2(1) show ?thesis by simp
  qed
qed

lemma git_suffix_unique:
  assumes "valid_repo r" and "valid_repo r'"
    and "sfx = [] \<or> sfx = ''.git''" and "sfx' = [] \<or> sfx' = ''.git''"
    and "r @ sfx = r' @ sfx'"
  shows "r = r'"
proof -
  from assms(3,4) consider (nn) "sfx = []" "sfx' = []" | (gg) "sfx = ''.git''" "sfx' = ''.git''"
    | (ng) "sfx = []" "sfx' = ''.git''" | (gn) "sfx = ''.git''" "sfx' = []"
    by (elim disjE) simp_all
  then show ?thesis
  proof cases
    case nn
    with assms(5) show ?thesis by simp
  next
    case gg
    with assms(5) show ?thesis by simp
  next
    case ng
    with assms(5) have "r = r' @ ''.git''" by simp
    then have "CHR ''.'' \<in> set r" by simp
    with assms(1) show ?thesis by (simp add: valid_repo_def)
  next
    case gn
    with assms(5) have "r' = r @ ''.git''" by simp
    then have "CHR ''.'' \<in> set r'" by simp
    with assms(2) show ?thesis by (simp add: valid_repo_def)
  qed
qed

lemma git_tail:
  assumes "valid_repo r" and "sfx = [] \<or> sfx = ''.git''"
  shows "r @ sfx \<noteq> [] \<and> CHR ''/'' \<notin> set (r @ sfx)"
  using assms(2)
proof
  assume "sfx = []"
  with assms(1) show ?thesis by (simp add: valid_repo_def)
next
  assume "sfx = ''.git''"
  with assms(1) show ?thesis by (simp add: valid_repo_def)
qed

lemma parse_exact_git:
  assumes vo: "valid_owner ow" and vr: "valid_repo r" and sf: "sfx = [] \<or> sfx = ''.git''"
  shows "parseGitHubUrl (p @ ''github.com/'' @ ow @ ''/'' @ r @ sfx) = Inr (ow, r)"
proof -
  define url where "url = p @ ''github.com/'' @ ow @ ''/'' @ r @ sfx"
  have "match_here lazy_repo_git (''github.com/'' @ ow @ ''/'' @ r @ sfx) = Some (ow, r)"
    using vo vr sf by (rule match_here_git)
  then have "\<exists>v. regex_search (match_here lazy_repo_git) url = Some v"
    unfolding url_def by (rule regex_search_finds)
  then obtain v where sv: "regex_search (match_here lazy_repo_git) url = Some v" ..
  obtain ow' r' where v: "v = (ow', r')" by (cases v)
  from search_git_shape [OF sv [unfolded v]] obtain p' sfx'
    where u2: "url = p' @ ''github.com/'' @ ow' @ ''/'' @ r' @ sfx'"
      and vo': "valid_owner ow'" and vr': "valid_repo r'" and sf': "sfx' = [] \<or> sfx' = ''.git''"
    by (elim exE conjE)
  have u1: "url = p @ ''github.com/'' @ ow @ ''/'' @ (r @ sfx) @ []" by (simp add: url_def)
  from u2 have u2': "url = p' @ ''github.com/'' @ ow' @ ''/'' @ (r' @ sfx') @ []" by simp
  from git_tail [OF vr sf] have t1: "r @ sfx \<noteq> []" "CHR ''/'' \<notin> set (r @ sfx)" by simp_all
  from git_tail [OF vr' sf'] have t2: "r' @ sfx' \<noteq> []" "CHR ''/'' \<notin> set (r' @ sfx')" by simp_all
  from vo vo' have s1: "CHR ''/'' \<notin> set ow" and s2: "CHR ''/'' \<notin> set ow'"
    by (simp_all add: valid_owner_def)
  have n: "([]::string) = [] \<or> ([]::string) = ''/''" by simp
  from url_shape_unique [OF u1 u2' s1 s2 t1 t2 n n]
  have oo: "ow = ow'" and rs: "r @ sfx = r' @ sfx'" by simp_all
  from git_suffix_unique [OF vr vr' sf sf' rs] have "r = r'" .
  with oo v sv have "regex_search (match_here lazy_repo_git) url = Some (ow, r)" by simp
  then have "parseGitHubUrl url = Inr (ow, r)" by (rule parse_of_search)
  then show ?thesis by (simp only: url_def)
qed

lemma parse_exact_plain:
  assumes vo: "valid_owner ow" and pn: "plain_name x" and ee: "e = [] \<or> e = ''/''"
  shows "parseGitHubUrl (p @ ''github.com/'' @ ow @ ''/'' @ x @ e) = Inr (ow, x)"
proof -
  define url where "url = p @ ''github.com/'' @ ow @ ''/'' @ x @ e"
  have u1: "url = p @ ''github.com/'' @ ow @ ''/'' @ x @ e" by (simp only: url_def)
  from pn have x1: "x \<noteq> []" "CHR ''/'' \<notin> set x" and ng: "\<not> ends_with x ''.git''"
    by (simp_all add: plain_name_def)
  from vo have s1: "CHR ''/'' \<notin> set ow" by (simp add: valid_owner_def)
  have n: "([]::string) = [] \<or> ([]::string) = ''/''" by simp
  have "parseGitHubUrl url = Inr (ow, x)"
  proof (cases "regex_search (match_here lazy_repo_git) url")
    case (Some v)
    obtain ow' r' where v: "v = (ow', r')" by (cases v)
    from search_git_shape [OF Some [unfolded v]] obtain p' sfx'
      where u2: "url = p' @ ''github.com/'' @ ow' @ ''/'' @ r' @ sfx'"
        and vo': "valid_owner ow'" and vr': "valid_repo r'" and sf': "sfx' = [] \<or> sfx' = ''.git''"
      by (elim exE conjE)
    from u2 have u2': "url = p' @ ''github.com/'' @ ow' @ ''/'' @ (r' @ sfx') @ []" by simp
    from git_tail [OF vr' sf'] have t2: "r' @ sfx' \<noteq> []" "CHR ''/'' \<notin> set (r' @ sfx')" by simp_all
    from vo' have s2: "CHR ''/'' \<notin> set ow'" by (simp add: valid_owner_def)
    from url_shape_unique [OF u1 u2' s1 s2 x1 t2 ee n]
    have oo: "ow = ow'" and xs: "x = r' @ sfx'" by simp_all
    from sf' have "x = r'"
    proof
      assume "sfx' = []"
      with xs show ?thesis by simp
    next
      assume "sfx' = ''.git''"
      with xs have "ends_with x ''.git''" by (simp only: ends_with_append)
      with ng show ?thesis by simp
    qed
    with oo v Some have "regex_search (match_here lazy_repo_git) url = Some (ow, x)" by simp
    then show ?thesis by (rule parse_of_search)
  next
    case None
    have "match_here lazy_repo_slash (''github.com/'' @ ow @ ''/'' @ x @ e) = Some (ow, x)"
      using vo x1 ee by (rule match_here_slash)
    then have "\<exists>v. regex_search (match_here lazy_repo_slash) url = Some v"
      unfolding url_def by (rule regex_search_finds)
    then obtain v where sv: "regex_search (match_here lazy_repo_slash) url = Some v" ..
    obtain ow' r' where v: "v = (ow', r')" by (cases v)
    from search_slash_shape [OF sv [unfolded v]] obtain p' e'
      where u2: "url = p' @ ''github.com/'' @ ow' @ ''/'' @ r' @ e'"
        and vo': "valid_owner ow'" and x2: "r' \<noteq> []" "CHR ''/'' \<notin> set r'"
        and ee': "e' = [] \<or> e' = ''/''"
      by (elim exE conjE)
    from vo' have s2: "CHR ''/'' \<notin> set ow'" by (simp add: valid_owner_def)
    from url_shape_unique [OF u1 u2 s1 s2 x1 x2 ee ee']
    have "ow = ow'" and "x = r'" by simp_all
    with v sv have "regex_search (match_here lazy_repo_slash) url = Some (ow, x)" by simp
    with None show ?thesis by (simp only: parseGitHubUrl_def option.case)
  qed
  then show ?thesis by (simp only: url_def)
qed

lemma parse_rejects:
  assumes no: "\<forall>p ow x e. valid_owner ow \<and> x \<noteq> [] \<and> CHR ''/'' \<notin> set x \<and> (e = [] \<or> e = ''/'')
             \<longrightarrow> url \<noteq> p @ ''github.com/'' @ ow @ ''/'' @ x @ e"
  shows "parseGitHubUrl url = Inl (''Invalid GitHub URL: '' @ url)"
proof -
  have g: "regex_search (match_here lazy_repo_git) url = None"
  proof (cases "regex_search (match_here lazy_repo_git) url")
    case None
    then show ?thesis .
  next
    case (Some v)
    obtain ow r where v: "v = (ow, r)" by (cases v)
    from search_git_shape [OF Some [unfolded v]] obtain p sfx
      where u: "url = p @ ''github.com/'' @ ow @ ''/'' @ r @ sfx"
        and vo: "valid_owner ow" and vr: "valid_repo r" and sf: "sfx = [] \<or> sfx = ''.git''"
      by (elim exE conjE)
    from u have u': "url = p @ ''github.com/'' @ ow @ ''/'' @ (r @ sfx) @ []" by simp
    from git_tail [OF vr sf] have t: "r @ sfx \<noteq> []" "CHR ''/'' \<notin> set (r @ sfx)" by simp_all
    from no have "valid_owner ow \<and> r @ sfx \<noteq> [] \<and> CHR ''/'' \<notin> set (r @ sfx)
        \<and> (([]::string) = [] \<or> ([]::string) = ''/'')
        \<longrightarrow> url \<noteq> p @ ''github.com/'' @ ow @ ''/'' @ (r @ sfx) @ []"
      by (elim allE)
    with vo t u' show ?thesis by simp
  qed
  have s: "regex_search (match_here lazy_repo_slash) url = None"
  proof (cases "regex_search (match_here lazy_repo_slash) url")
    case None
    then show ?thesis .
  next
    case (Some v)
    obtain ow r where v: "v = (ow, r)" by (cases v)
    from search_slash_shape [OF Some [unfolded v]] obtain p e
      where u: "url = p @ ''github.com/'' @ ow @ ''/'' @ r @ e"
        and vo: "valid_owner ow" and x: "r \<noteq> []" "CHR ''/'' \<notin> set r"
        and ee: "e = [] \<or> e = ''/''"
      by (elim exE conjE)
    from no have "valid_owner ow \<and> r \<noteq> [] \<and> CHR ''/'' \<notin> set r \<and> (e = [] \<or> e = ''/'')
        \<longrightarrow> url \<noteq> p @ ''github.com/'' @ ow @ ''/'' @ r @ e"
      by (elim allE)
    with vo x ee u show ?thesis by simp
  qed
  show ?thesis by (simp only: parseGitHubUrl_def g s option.case)
qed


lemma parse_shape:
  assumes "parseGitHubUrl url = Inr (ow, r)"
  shows "\<exists>p sfx. url = p @ ''github.com/'' @ ow @ ''/'' @ r @ sfx \<and> valid_owner ow
           \<and> r \<noteq> [] \<and> CHR ''/'' \<notin> set r \<and> (sfx = [] \<or> sfx = ''.git'' \<or> sfx = ''/'')"
proof (cases "regex_search (match_here lazy_repo_git) url")
  case (Some v)
  with assms have "v = (ow, r)" by (simp add: parseGitHubUrl_def)
  with Some have "regex_search (match_here lazy_repo_git) url = Some (ow, r)" by simp
  from search_git_shape [OF this] obtain p sfx
    where "url = p @ ''github.com/'' @ ow @ ''/'' @ r @ sfx" "valid_owner ow" "valid_repo r"
      "sfx = [] \<or> sfx = ''.git''"
    by (elim exE conjE)
  then have "url = p @ ''github.com/'' @ ow @ ''/'' @ r @ sfx \<and> valid_owner ow
           \<and> r \<noteq> [] \<and> CHR ''/'' \<notin> set r \<and> (sfx = [] \<or> sfx = ''.git'' \<or> sfx = ''/'')"
    by (elim disjE) (simp_all add: valid_repo_def)
  then show ?thesis by (intro exI)
next
  case None
  show ?thesis
  proof (cases "regex_search (match_here lazy_repo_slash) url")
    case n2: None
    with None assms show ?thesis by (simp add: parseGitHubUrl_def)
  next
    case (Some v)
    with None assms have "v = (ow, r)" by (simp add: parseGitHubUrl_def)
    with Some have "regex_search (match_here lazy_repo_slash) url = Some (ow, r)" by simp
    from search_slash_shape [OF this] obtain p sfx
      where "url = p @ ''github.com/'' @ ow @ ''/'' @ r @ sfx" "valid_owner ow" "r \<noteq> []"
        "CHR ''/'' \<notin> set r" "sfx = [] \<or> sfx = ''/''"
      by (elim exE conjE)
    then have "url = p @ ''github.com/'' @ ow @ ''/'' @ r @ sfx \<and> valid_owner ow
           \<and> r \<noteq> [] \<and> CHR ''/'' \<notin> set r \<and> (sfx = [] \<or> sfx = ''.git'' \<or> sfx = ''/'')"
      by (elim disjE) simp_all
    then show ?thesis by (intro exI)
  qed
qed

lemma starts_with_includes: "starts_with s n \<Longrightarrow> str_includes s n"
  by (cases s) (simp_all add: starts_with_def)

lemma str_includes_append: "str_includes (p @ n @ rest) n"
proof (induction p)
  case Nil
  have "starts_with (n @ rest) n" by (simp add: starts_with_def)
  then show ?case by (simp add: starts_with_includes)
next
  case (Cons c p)
  then show ?case by simp
qed

lemma no_occurrence:
  "\<not> str_includes s n \<Longrightarrow> s \<noteq> p @ n @ rest"
  using str_includes_append [of p n rest] by (rule_tac notI) simp

text \<open>
  C6, as the claim has it, fails: an SSH-scheme URL and a URL of another host are parsed
  to an owner and a repository instead of being rejected, and so is a URL with a slash
  after the repository name.
\<close>

theorem parseGitHubUrl_accepts_other_forms:
  "parseGitHubUrl ''ssh://git@github.com/owner/repo.git'' = Inr (''owner'', ''repo'')
   \<and> parseGitHubUrl ''https://evilgithub.com/owner/repo'' = Inr (''owner'', ''repo'')
   \<and> parseGitHubUrl ''https://github.com/owner/repo/'' = Inr (''owner'', ''repo'')"
  by code_simp

text \<open>
  C6, amended.  An owner is a non-empty string without a slash.  For an owner and a
  repository name without slash and dot, \<open>https://github.com/<owner>/<repo>\<close> with an
  optional \<open>.git\<close> is parsed to that owner and repository, as the claim says.  What
  precedes \<open>github.com/\<close> is not checked, and one slash may follow the name: every string
  that ends in \<open>github.com/<owner>/<name>\<close>, where the name is not empty, has no slash and
  does not end in \<open>.git\<close>, optionally followed by a slash, is parsed to that owner and
  name; and every string that ends in \<open>github.com/<owner>/<repo>.git\<close>, the repository name
  without slash and dot, is parsed to that owner and repository.  Every string that does
  not end in \<open>github.com/<owner>/<name>\<close> with an optional slash fails with the error
  \<open>Invalid GitHub URL\<close>; and an owner and a name that are returned stand at the end of the
  string, followed by nothing, by \<open>.git\<close> or by a slash.  Nothing more is stated of a name
  with a dot that ends in \<open>.git\<close>.
\<close>

theorem parseGitHubUrl_amended:
  "(valid_owner owner \<and> valid_repo repo \<and> (sfx = [] \<or> sfx = ''.git'') \<longrightarrow>
      parseGitHubUrl (''https://github.com/'' @ owner @ ''/'' @ repo @ sfx) = Inr (owner, repo))
   \<and> (valid_owner owner \<and> plain_name name \<and> (e = [] \<or> e = ''/'') \<longrightarrow>
      parseGitHubUrl (pre @ ''github.com/'' @ owner @ ''/'' @ name @ e) = Inr (owner, name))
   \<and> (valid_owner owner \<and> valid_repo repo \<longrightarrow>
      parseGitHubUrl (pre @ ''github.com/'' @ owner @ ''/'' @ repo @ ''.git'') = Inr (owner, repo))
   \<and> ((\<forall>p ow x t. valid_owner ow \<and> x \<noteq> [] \<and> CHR ''/'' \<notin> set x \<and> (t = [] \<or> t = ''/'')
            \<longrightarrow> url \<noteq> p @ ''github.com/'' @ ow @ ''/'' @ x @ t) \<longrightarrow>
      parseGitHubUrl url = Inl (''Invalid GitHub URL: '' @ url))
   \<and> (parseGitHubUrl given = Inr (got_owner, got_repo) \<longrightarrow>
      (\<exists>p t. given = p @ ''github.com/'' @ got_owner @ ''/'' @ got_repo @ t \<and> valid_owner got_owner
          \<and> got_repo \<noteq> [] \<and> CHR ''/'' \<notin> set got_repo
          \<and> (t = [] \<or> t = ''.git'' \<or> t = ''/'')))"
proof (intro conjI impI)
  show "parseGitHubUrl (''https://github.com/'' @ owner @ ''/'' @ repo @ sfx) = Inr (owner, repo)"
    if h: "valid_owner owner \<and> valid_repo repo \<and> (sfx = [] \<or> sfx = ''.git'')"
  proof -
    from h have "parseGitHubUrl (''https://'' @ ''github.com/'' @ owner @ ''/'' @ repo @ sfx)
        = Inr (owner, repo)"
      by (intro parse_exact_git) simp_all
    then show ?thesis by simp
  qed
  show "parseGitHubUrl (pre @ ''github.com/'' @ owner @ ''/'' @ name @ e) = Inr (owner, name)"
    if h: "valid_owner owner \<and> plain_name name \<and> (e = [] \<or> e = ''/'')"
    using h by (intro parse_exact_plain) simp_all
  show "parseGitHubUrl (pre @ ''github.com/'' @ owner @ ''/'' @ repo @ ''.git'') = Inr (owner, repo)"
    if h: "valid_owner owner \<and> valid_repo repo"
    using h by (intro parse_exact_git) simp_all
  show "parseGitHubUrl url = Inl (''Invalid GitHub URL: '' @ url)"
    if h: "\<forall>p ow x t. valid_owner ow \<and> x \<noteq> [] \<and> CHR ''/'' \<notin> set x \<and> (t = [] \<or> t = ''/'')
            \<longrightarrow> url \<noteq> p @ ''github.com/'' @ ow @ ''/'' @ x @ t"
    using h by (rule parse_rejects)
  show "\<exists>p t. given = p @ ''github.com/'' @ got_owner @ ''/'' @ got_repo @ t \<and> valid_owner got_owner
          \<and> got_repo \<noteq> [] \<and> CHR ''/'' \<notin> set got_repo
          \<and> (t = [] \<or> t = ''.git'' \<or> t = ''/'')"
    if h: "parseGitHubUrl given = Inr (got_owner, got_repo)"
    using h by (rule parse_shape)
qed

text \<open>
  The theorem on an SSH-scheme URL with a dotted name and a slash, on one with \<open>.git\<close>, on
  the SCP-like form, which has no \<open>github.com/\<close>, and on the result of an HTTPS URL.
\<close>

theorem parseGitHubUrl_amended_witness:
  "(valid_owner ''owner'' \<and> valid_repo ''repo'' \<and> (''.git'' = [] \<or> ''.git'' = ''.git''))
   \<and> (valid_owner ''owner'' \<and> plain_name ''next.js'' \<and> (''/'' = [] \<or> ''/'' = ''/''))
   \<and> \<not> str_includes ''git@github.com:owner/repo.git'' ''github.com/''
   \<and> parseGitHubUrl ''https://github.com/owner/repo.git'' = Inr (''owner'', ''repo'')
   \<and> parseGitHubUrl (''ssh://git@'' @ ''github.com/'' @ ''owner'' @ ''/'' @ ''next.js'' @ ''/'')
        = Inr (''owner'', ''next.js'')
   \<and> parseGitHubUrl (''ssh://git@'' @ ''github.com/'' @ ''owner'' @ ''/'' @ ''repo'' @ ''.git'')
        = Inr (''owner'', ''repo'')
   \<and> parseGitHubUrl ''git@github.com:owner/repo.git''
        = Inl (''Invalid GitHub URL: '' @ ''git@github.com:owner/repo.git'')
   \<and> (\<exists>p t. ''https://github.com/owner/repo.git'' = p @ ''github.com/'' @ ''owner'' @ ''/'' @ ''repo'' @ t
          \<and> valid_owner ''owner'' \<and> ''repo'' \<noteq> [] \<and> CHR ''/'' \<notin> set ''repo''
          \<and> (t = [] \<or> t = ''.git'' \<or> t = ''/''))"
proof -
  have h1: "valid_owner ''owner'' \<and> valid_repo ''repo'' \<and> (''.git'' = [] \<or> ''.git'' = ''.git'')"
    by (simp add: valid_owner_def valid_repo_def)
  have h2: "valid_owner ''owner'' \<and> plain_name ''next.js'' \<and> (''/'' = [] \<or> ''/'' = ''/'')"
    by (simp add: valid_owner_def plain_name_def ends_with_def)
  have h3: "valid_owner ''owner'' \<and> valid_repo ''repo''"
    by (simp add: valid_owner_def valid_repo_def)
  have ni: "\<not> str_includes ''git@github.com:owner/repo.git'' ''github.com/''" by code_simp
  have h4: "\<forall>p ow x t. valid_owner ow \<and> x \<noteq> [] \<and> CHR ''/'' \<notin> set x \<and> (t = [] \<or> t = ''/'')
            \<longrightarrow> ''git@github.com:owner/repo.git'' \<noteq> p @ ''github.com/'' @ ow @ ''/'' @ x @ t"
    by (intro allI impI no_occurrence [OF ni])
  note T = parseGitHubUrl_amended [where owner = "''owner''" and repo = "''repo''"
      and sfx = "''.git''" and name = "''next.js''" and e = "''/''" and pre = "''ssh://git@''"
      and url = "''git@github.com:owner/repo.git''"
      and given = "''https://github.com/owner/repo.git''"
      and got_owner = "''owner''" and got_repo = "''repo''"]
  note c1 = T [THEN conjunct1, THEN mp, OF h1]
  from c1 have c1': "parseGitHubUrl ''https://github.com/owner/repo.git'' = Inr (''owner'', ''repo'')"
    by simp
  note c2 = T [THEN conjunct2, THEN conjunct1, THEN mp, OF h2]
  note c3 = T [THEN conjunct2, THEN conjunct2, THEN conjunct1, THEN mp, OF h3]
  note c4 = T [THEN conjunct2, THEN conjunct2, THEN conjunct2, THEN conjunct1, THEN mp, OF h4]
  note c5 = T [THEN conjunct2, THEN conjunct2, THEN conjunct2, THEN conjunct2, THEN mp, OF c1']
  show ?thesis by (intro conjI h1 h2 ni c1' c2 c3 c4 c5)
qed

text \<open>
  Strings that contain \<open>github.com/\<close> and are rejected: a path below the repository, an
  owner alone, an empty owner, an empty name; and another host.
\<close>

lemma parseGitHubUrl_rejects_malformed:
  "parseGitHubUrl ''https://github.com/owner/repo/tree/main''
     = Inl ''Invalid GitHub URL: https://github.com/owner/repo/tree/main''
   \<and> parseGitHubUrl ''https://github.com/owner'' = Inl ''Invalid GitHub URL: https://github.com/owner''
   \<and> parseGitHubUrl ''https://github.com//repo'' = Inl ''Invalid GitHub URL: https://github.com//repo''
   \<and> parseGitHubUrl ''https://github.com/owner/'' = Inl ''Invalid GitHub URL: https://github.com/owner/''
   \<and> parseGitHubUrl ''https://gitlab.com/owner/repo'' = Inl ''Invalid GitHub URL: https://gitlab.com/owner/repo''"
  by code_simp

text \<open>
  The case the amended statement leaves open: after a name with a dot the suffix \<open>.git\<close>
  is not removed.
\<close>

lemma parseGitHubUrl_dotted_git:
  "parseGitHubUrl ''https://github.com/vercel/next.js.git'' = Inr (''vercel'', ''next.js.git'')"
  by code_simp

section \<open>Properties of the calls to the hosting API\<close>

lemma fork_failure_shaped: "m \<noteq> [] \<Longrightarrow> failure_shaped (fork_failure m)"
  by (simp add: failure_shaped_def fork_failure_def)

lemma fork_try_cases:
  assumes "thrown_message_ok resp"
  shows "(\<exists>m. fork_try repo resp polls = Inl m \<and> m \<noteq> [])
       \<or> (\<exists>r. fork_try repo resp polls = Inr r \<and> fr_success r)"
proof (cases resp)
  case (FetchThrows m)
  with assms show ?thesis by (simp add: fork_try_def thrown_message_ok_def)
next
  case (Response st stxt body)
  show ?thesis
  proof (cases body)
    case (JsonThrows m)
    with Response assms show ?thesis
      by (simp add: fork_try_def thrown_message_ok_def)
  next
    case JsonNull
    with Response show ?thesis
      by (simp add: fork_try_def null_read_error_def)
  next
    case (JsonObject b)
    with Response show ?thesis
      by (simp add: fork_try_def Let_def)
  qed
qed

lemma fork_try_failure:
  assumes "is_failure_response resp"
  shows "\<exists>m. fork_try repo resp polls = Inl m"
proof (cases resp)
  case (FetchThrows m)
  then show ?thesis by (simp add: fork_try_def)
next
  case (Response st stxt body)
  with assms show ?thesis
    by (cases body) (simp_all add: fork_try_def is_failure_response_def Let_def)
qed

lemma fork_loop_result:
  assumes "list_all (\<lambda>k. thrown_message_ok (fork_response env k)) ks"
  shows "fr_success (fork_loop env repo ks) \<or> failure_shaped (fork_loop env repo ks)"
  using assms
proof (induction ks)
  case Nil
  show ?case by (simp add: fork_failure_shaped)
next
  case (Cons k ks)
  from Cons.prems have ok: "thrown_message_ok (fork_response env k)" by simp
  from Cons have IH: "fr_success (fork_loop env repo ks) \<or> failure_shaped (fork_loop env repo ks)"
    by simp
  from fork_try_cases [OF ok, of repo "fork_polls env k"] show ?case
  proof
    assume "\<exists>m. fork_try repo (fork_response env k) (fork_polls env k) = Inl m \<and> m \<noteq> []"
    then obtain m where "fork_try repo (fork_response env k) (fork_polls env k) = Inl m" "m \<noteq> []"
      by (elim exE conjE)
    with IH show ?thesis by (simp add: fork_failure_shaped)
  next
    assume "\<exists>r. fork_try repo (fork_response env k) (fork_polls env k) = Inr r \<and> fr_success r"
    then obtain r where "fork_try repo (fork_response env k) (fork_polls env k) = Inr r" "fr_success r"
      by (elim exE conjE)
    then show ?thesis by simp
  qed
qed

lemma fork_loop_all_failed:
  assumes "list_all (\<lambda>k. is_failure_response (fork_response env k)) ks"
  shows "\<not> fr_success (fork_loop env repo ks)"
  using assms
proof (induction ks)
  case Nil
  show ?case by (simp add: fork_failure_def)
next
  case (Cons k ks)
  from Cons.prems have "is_failure_response (fork_response env k)" by simp
  then have "\<exists>m. fork_try repo (fork_response env k) (fork_polls env k) = Inl m"
    by (rule fork_try_failure)
  then obtain m where "fork_try repo (fork_response env k) (fork_polls env k) = Inl m" ..
  with Cons show ?case by (simp add: fork_failure_def)
qed

lemma getBotToken_single_ok:
  "getBotToken tok = Inr t \<Longrightarrow> getBotToken_single tok = Inr t"
  by (simp add: getBotToken_def getBotToken_single_def split: option.splits if_splits)

lemma forkRepo_throws_iff:
  "(\<exists>msg. forkRepo tok env owner repo = Inl msg) = (tok = None \<or> tok = Some [])"
  by (cases tok) (simp_all add: forkRepo_def getBotToken_def)

lemma forkRepo_single_throws_iff:
  "(\<exists>msg. forkRepo_single tok env owner repo = Inl msg) = (tok = None \<or> tok = Some [])"
  by (cases tok) (simp_all add: forkRepo_single_def getBotToken_single_def split: sum.splits)

text \<open>
  C10.  With the bot token set (and the exceptions of the runtime carrying a message),
  \<open>forkRepo\<close> returns a result, in the retrying repository manager and in the one
  without retries: for whatever the hosting API answers the result is a success or has
  \<open>success: false\<close>, a non-empty error message and empty owner, name and URL; when every
  attempt is answered by a network error or a failure status the result is not a success;
  and an exception reaches the caller exactly when the token is missing or empty.
\<close>

theorem forkRepo_never_rejects:
  assumes "t \<noteq> []"
    and "list_all (\<lambda>k. thrown_message_ok (fork_response env k)) [1 ..< Suc maxForkAttempts]"
    and "list_all (\<lambda>k. is_failure_response (fork_response env' k)) [1 ..< Suc maxForkAttempts]"
  shows "(\<exists>r. forkRepo (Some t) env owner repo = Inr r \<and> (fr_success r \<or> failure_shaped r))
     \<and> (\<exists>r. forkRepo_single (Some t) env owner repo = Inr r \<and> (fr_success r \<or> failure_shaped r))
     \<and> (\<exists>r. forkRepo (Some t) env' owner repo = Inr r \<and> \<not> fr_success r)
     \<and> (\<exists>r. forkRepo_single (Some t) env' owner repo = Inr r \<and> \<not> fr_success r)
     \<and> ((\<exists>msg. forkRepo tok env owner repo = Inl msg) = (tok = None \<or> tok = Some []))
     \<and> ((\<exists>msg. forkRepo_single tok env owner repo = Inl msg) = (tok = None \<or> tok = Some []))"
proof (intro conjI)
  have tok: "getBotToken (Some t) = Inr t"
    using assms(1) by (simp add: getBotToken_def)
  have one: "1 \<in> set [1 ..< Suc maxForkAttempts]"
    by (simp add: maxForkAttempts_def)
  show "\<exists>r. forkRepo (Some t) env owner repo = Inr r \<and> (fr_success r \<or> failure_shaped r)"
    using fork_loop_result [OF assms(2), of repo] by (simp add: forkRepo_def tok)
  show "\<exists>r. forkRepo (Some t) env' owner repo = Inr r \<and> \<not> fr_success r"
    using fork_loop_all_failed [OF assms(3), of repo] by (simp add: forkRepo_def tok)
  have ok1: "thrown_message_ok (fork_response env 1)"
    using assms(2) one by (simp only: list_all_iff)
  show "\<exists>r. forkRepo_single (Some t) env owner repo = Inr r \<and> (fr_success r \<or> failure_shaped r)"
    using fork_try_cases [OF ok1, of repo "fork_polls env 1"]
    by (auto simp: forkRepo_single_def getBotToken_single_ok [OF tok] fork_failure_shaped)
  have f1: "is_failure_response (fork_response env' 1)"
    using assms(3) one by (simp only: list_all_iff)
  show "\<exists>r. forkRepo_single (Some t) env' owner repo = Inr r \<and> \<not> fr_success r"
    using fork_try_failure [OF f1, of repo "fork_polls env' 1"]
    by (auto simp: forkRepo_single_def getBotToken_single_ok [OF tok] fork_failure_def)
  show "(\<exists>msg. forkRepo tok env owner repo = Inl msg) = (tok = None \<or> tok = Some [])"
    by (rule forkRepo_throws_iff)
  show "(\<exists>msg. forkRepo_single tok env owner repo = Inl msg) = (tok = None \<or> tok = Some [])"
    by (rule forkRepo_single_throws_iff)
qed

theorem forkRepo_never_rejects_witness:
  "''ghp_token'' \<noteq> []
   \<and> list_all (\<lambda>k. thrown_message_ok (fork_response forbidden_fork_env k)) [1 ..< Suc maxForkAttempts]
   \<and> list_all (\<lambda>k. is_failure_response (fork_response forbidden_fork_env k)) [1 ..< Suc maxForkAttempts]
   \<and> (\<exists>r. forkRepo (Some ''ghp_token'') forbidden_fork_env ''octo'' ''demo'' = Inr r
          \<and> (fr_success r \<or> failure_shaped r))
   \<and> (\<exists>r. forkRepo (Some ''ghp_token'') forbidden_fork_env ''octo'' ''demo'' = Inr r
          \<and> \<not> fr_success r)"
proof -
  have h1: "''ghp_token'' \<noteq> []" by simp
  have h2: "list_all (\<lambda>k. thrown_message_ok (fork_response forbidden_fork_env k))
              [1 ..< Suc maxForkAttempts]"
    by (simp add: list_all_iff thrown_message_ok_def forbidden_fork_env_def)
  have h3: "list_all (\<lambda>k. is_failure_response (fork_response forbidden_fork_env k))
              [1 ..< Suc maxForkAttempts]"
    by (simp add: list_all_iff is_failure_response_def forbidden_fork_env_def response_ok_def)
  note T = forkRepo_never_rejects [OF h1 h2 h3, of "''octo''" "''demo''" None]
  have c1: "\<exists>r. forkRepo (Some ''ghp_token'') forbidden_fork_env ''octo'' ''demo'' = Inr r
          \<and> (fr_success r \<or> failure_shaped r)"
    using T by (elim conjE)
  have c2: "\<exists>r. forkRepo (Some ''ghp_token'') forbidden_fork_env ''octo'' ''demo'' = Inr r
          \<and> \<not> fr_success r"
    using T by (elim conjE)
  show ?thesis by (intro conjI h1 h2 h3 c1 c2)
qed

lemma forkRepo_forbidden_value:
  "forkRepo (Some ''ghp_token'') forbidden_fork_env ''octo'' ''demo''
   = Inr (fork_failure (''Fork failed (403): Resource not accessible by personal access token. '' @ scope_hint))"
  by code_simp

lemma lookup_existing_success: "lookup_existing sr = Some found \<Longrightarrow> pr_success found \<and> pr_error found = None"
  by (auto simp: lookup_existing_def split: fetch_outcome.splits json_result.splits if_splits list.splits)

lemma already_exists_422: "already_exists st body \<Longrightarrow> st = 422 \<and> (\<exists>b. body = JsonObject b)"
  by (cases body) (simp_all add: already_exists_def)

lemma pr_try_already_exists:
  assumes "already_exists st body"
  shows "pr_try originalOwner originalRepo (Response st stxt body) (pr_search env)
         = Inr (existing_or_listing env originalOwner originalRepo)"
proof -
  from already_exists_422 [OF assms] obtain b where st: "st = 422" and body: "body = JsonObject b"
    by (elim conjE exE)
  have "\<not> response_ok st" by (simp add: st response_ok_def)
  then show ?thesis
    using assms by (simp add: pr_try_def body existing_or_listing_def split: option.splits)
qed

lemma createPullRequest_already_exists:
  assumes "t \<noteq> []" and "already_exists st body"
    and "pr_response env k = Response st stxt body"
    and "k = 1 \<or> (k = 2 \<and> (\<exists>m. pr_try originalOwner originalRepo (pr_response env 1) (pr_search env) = Inl m))"
  shows "createPullRequest (Some t) env originalOwner originalRepo
         = Inr (existing_or_listing env originalOwner originalRepo)"
proof -
  have tok: "getBotToken (Some t) = Inr t"
    using assms(1) by (simp add: getBotToken_def)
  have l: "[1 ..< Suc maxRetries] = [1, 2]"
    by (simp add: maxRetries_def upt_rec)
  have here: "pr_try originalOwner originalRepo (pr_response env k) (pr_search env)
              = Inr (existing_or_listing env originalOwner originalRepo)"
    unfolding assms(3) using assms(2) by (rule pr_try_already_exists)
  from assms(4) have "pr_loop env originalOwner originalRepo [1, 2]
                      = existing_or_listing env originalOwner originalRepo"
  proof
    assume "k = 1"
    with here show ?thesis by simp
  next
    assume "k = 2 \<and> (\<exists>m. pr_try originalOwner originalRepo (pr_response env 1) (pr_search env) = Inl m)"
    then obtain m where k: "k = 2"
      and first: "pr_try originalOwner originalRepo (pr_response env 1) (pr_search env) = Inl m"
      by (elim conjE exE)
    from here k have second: "pr_try originalOwner originalRepo (pr_response env 2) (pr_search env)
              = Inr (existing_or_listing env originalOwner originalRepo)" by simp
    show ?thesis using first second by (simp add: maxRetries_def)
  qed
  moreover have "createPullRequest (Some t) env originalOwner originalRepo
                 = Inr (pr_loop env originalOwner originalRepo [1, 2])"
    unfolding createPullRequest_def tok l by simp
  ultimately show ?thesis by (simp only:)
qed

lemma createPullRequest_single_already_exists:
  assumes "t \<noteq> []" and "already_exists st body"
    and "pr_response env 1 = Response st stxt body"
  shows "createPullRequest_single (Some t) env originalOwner originalRepo
         = Inr \<lparr> pr_success = True, prNumber = None,
                 prUrl = Some (pulls_page originalOwner originalRepo), pr_error = None \<rparr>"
proof -
  have tok: "getBotToken (Some t) = Inr t"
    using assms(1) by (simp add: getBotToken_def)
  from already_exists_422 [OF assms(2)] obtain b where st: "st = 422" and body: "body = JsonObject b"
    by (elim conjE exE)
  have "\<not> response_ok st" by (simp add: st response_ok_def)
  then show ?thesis
    using assms(2,3) by (simp add: createPullRequest_single_def getBotToken_single_ok [OF tok] body)
qed

text \<open>
  C7, as the claim has it, fails: with the create call answered 422 "pull request already
  exists", the retrying \<open>createPullRequest\<close> whose search is refused, and the
  \<open>createPullRequest\<close> without retries even where a search would find pull request 7,
  return the address of the list of pull requests and no number, not the address and
  number of the existing pull request.
\<close>

theorem createPullRequest_listing_url:
  "createPullRequest (Some ''ghp_token'') exists_search_refused_env ''octo'' ''demo''
     = Inr \<lparr> pr_success = True, prNumber = None,
             prUrl = Some ''https://github.com/octo/demo/pulls'', pr_error = None \<rparr>
   \<and> createPullRequest_single (Some ''ghp_token'') exists_found_env ''octo'' ''demo''
     = Inr \<lparr> pr_success = True, prNumber = None,
             prUrl = Some ''https://github.com/octo/demo/pulls'', pr_error = None \<rparr>"
  by code_simp

text \<open>
  C7, amended.  When a create call is answered with status 422 and a first error message
  that contains "pull request already exists" (at the first attempt, or at the second
  after a failed first), \<open>createPullRequest\<close> returns \<open>success: true\<close> and no error.
  The retrying repository manager returns number and address of the first open pull
  request that its search finds, and the address of the list of pull requests, without a
  number, when the search fails or finds none; the repository manager without retries
  always returns the address of the list, without a number.
\<close>

theorem createPullRequest_already_exists_amended:
  assumes "t \<noteq> []" and "already_exists st body"
    and "pr_response env k = Response st stxt body"
    and "k = 1 \<or> (k = 2 \<and> (\<exists>m. pr_try originalOwner originalRepo (pr_response env 1) (pr_search env) = Inl m))"
    and "pr_response env' 1 = Response st stxt body"
  shows "(\<exists>res. createPullRequest (Some t) env originalOwner originalRepo = Inr res
            \<and> pr_success res \<and> pr_error res = None
            \<and> res = (case lookup_existing (pr_search env) of
                       Some found \<Rightarrow> found
                     | None \<Rightarrow> \<lparr> pr_success = True, prNumber = None,
                                  prUrl = Some (pulls_page originalOwner originalRepo),
                                  pr_error = None \<rparr>))
     \<and> createPullRequest_single (Some t) env' originalOwner originalRepo
         = Inr \<lparr> pr_success = True, prNumber = None,
                 prUrl = Some (pulls_page originalOwner originalRepo), pr_error = None \<rparr>"
proof (intro conjI)
  have ok: "pr_success (existing_or_listing env originalOwner originalRepo)
            \<and> pr_error (existing_or_listing env originalOwner originalRepo) = None"
  proof (cases "lookup_existing (pr_search env)")
    case None
    then show ?thesis by (simp add: existing_or_listing_def)
  next
    case (Some found)
    with lookup_existing_success [OF Some] show ?thesis by (simp add: existing_or_listing_def)
  qed
  have "createPullRequest (Some t) env originalOwner originalRepo
         = Inr (existing_or_listing env originalOwner originalRepo)"
    using assms(1-4) by (rule createPullRequest_already_exists)
  with ok show "\<exists>res. createPullRequest (Some t) env originalOwner originalRepo = Inr res
            \<and> pr_success res \<and> pr_error res = None
            \<and> res = (case lookup_existing (pr_search env) of
                       Some found \<Rightarrow> found
                     | None \<Rightarrow> \<lparr> pr_success = True, prNumber = None,
                                  prUrl = Some (pulls_page originalOwner originalRepo),
                                  pr_error = None \<rparr>)"
    by (simp add: existing_or_listing_def)
  show "createPullRequest_single (Some t) env' originalOwner originalRepo
         = Inr \<lparr> pr_success = True, prNumber = None,
                 prUrl = Some (pulls_page originalOwner originalRepo), pr_error = None \<rparr>"
    using assms(1,2,5) by (rule createPullRequest_single_already_exists)
qed

theorem createPullRequest_already_exists_amended_witness:
  "''ghp_token'' \<noteq> []
   \<and> already_exists 422 (JsonObject \<lparr> pb_first_error_message =
                                 Some ''A pull request already exists for bot:TEAM_LEADER_AI_Fix.'',
                               pb_message = Some ''Validation Failed'',
                               pb_number = None, pb_html_url = None \<rparr>)
   \<and> (\<exists>m. pr_try ''octo'' ''demo'' (pr_response exists_after_retry_env 1)
              (pr_search exists_after_retry_env) = Inl m)
   \<and> (\<exists>res. createPullRequest (Some ''ghp_token'') exists_after_retry_env ''octo'' ''demo'' = Inr res
          \<and> pr_success res \<and> pr_error res = None
          \<and> res = (case lookup_existing (pr_search exists_after_retry_env) of
                     Some found \<Rightarrow> found
                   | None \<Rightarrow> \<lparr> pr_success = True, prNumber = None,
                                prUrl = Some (pulls_page ''octo'' ''demo''), pr_error = None \<rparr>))
   \<and> lookup_existing (pr_search exists_after_retry_env)
       = Some \<lparr> pr_success = True, prNumber = Some 7,
                prUrl = Some ''https://github.com/octo/demo/pull/7'', pr_error = None \<rparr>"
proof -
  let ?body = "JsonObject \<lparr> pb_first_error_message =
                                 Some ''A pull request already exists for bot:TEAM_LEADER_AI_Fix.'',
                               pb_message = Some ''Validation Failed'',
                               pb_number = None, pb_html_url = None \<rparr>"
  have h1: "''ghp_token'' \<noteq> []" by simp
  have h2: "already_exists 422 ?body" by code_simp
  have h3: "pr_response exists_after_retry_env 2 = Response 422 ''Unprocessable Entity'' ?body"
    by (simp add: exists_after_retry_env_def)
  have first: "pr_try ''octo'' ''demo'' (pr_response exists_after_retry_env 1)
              (pr_search exists_after_retry_env) = Inl ''GitHub API error 500: Server Error''"
    by code_simp
  then have ex: "\<exists>m. pr_try ''octo'' ''demo'' (pr_response exists_after_retry_env 1)
              (pr_search exists_after_retry_env) = Inl m" ..
  have h4: "(2::nat) = 1 \<or> ((2::nat) = 2 \<and> (\<exists>m. pr_try ''octo'' ''demo'' (pr_response exists_after_retry_env 1)
              (pr_search exists_after_retry_env) = Inl m))"
    using ex by simp
  have h5: "pr_response exists_search_refused_env 1 = Response 422 ''Unprocessable Entity'' ?body"
    by (simp add: exists_search_refused_env_def)
  note T = createPullRequest_already_exists_amended [OF h1 h2 h3 h4 h5, THEN conjunct1]
  have found: "lookup_existing (pr_search exists_after_retry_env)
       = Some \<lparr> pr_success = True, prNumber = Some 7,
                prUrl = Some ''https://github.com/octo/demo/pull/7'', pr_error = None \<rparr>"
    by code_simp
  show ?thesis by (intro conjI h1 h2 ex T found)
qed

section \<open>Properties of the orchestrator\<close>















lemma mark_bug_length: "length (mark_bug i k bugs) = length bugs"
  by (induction bugs) simp_all




lemma state_of_simps [simp]:
  "state_of (Next s) = s" "state_of (Break s) = s" "state_of (Return s) = s"
  "state_of (Throw m s) = s"
  by (simp_all add: state_of_def)

lemma attemptCreatePR_cases:
  "attemptCreatePR env repo s = Throw m s' \<Longrightarrow> s' = s"
  "attemptCreatePR env repo s \<noteq> Next s'"
  "attemptCreatePR env repo s \<noteq> Break s'"
  by (simp_all add: attemptCreatePR_def split: sum.splits if_splits)

lemma attemptCreatePR_keeps:
  "allBugs (state_of (attemptCreatePR env repo s)) = allBugs s"
  "repoDir (state_of (attemptCreatePR env repo s)) = repoDir s"
  "status (state_of (attemptCreatePR env repo s)) = status s"
  "score (state_of (attemptCreatePR env repo s)) = score s"
  "attempts (state_of (attemptCreatePR env repo s)) = attempts s"
  "files (state_of (attemptCreatePR env repo s)) = files s"
  by (simp_all add: attemptCreatePR_def split: sum.splits)

lemma attemptCreatePR_fallback_keeps:
  "allBugs (state_of (attemptCreatePR_fallback env repo s)) = allBugs s"
  "repoDir (state_of (attemptCreatePR_fallback env repo s)) = repoDir s"
  "status (state_of (attemptCreatePR_fallback env repo s)) = status s"
  "score (state_of (attemptCreatePR_fallback env repo s)) = score s"
  by (simp_all add: attemptCreatePR_fallback_def split: sum.splits)

lemma finish_completed_keeps:
  "allBugs (state_of (finish_completed env repo k e n s)) = allBugs s"
  "repoDir (state_of (finish_completed env repo k e n s)) = repoDir s"
  "files (state_of (finish_completed env repo k e n s)) = files s"
  by (simp_all add: finish_completed_def Let_def attemptCreatePR_keeps)


lemma attemptBody_repoDir:
  "repoDir (state_of (attemptBody env repo k s)) = repoDir s"
  "files (state_of (attemptBody env repo k s)) = files s"
  by (simp_all add: attemptBody_def Let_def finish_completed_keeps split: sum.split)


lemma attemptsLoop_repoDir:
  "repoDir (state_of (attemptsLoop env repo ks s)) = repoDir s
   \<and> files (state_of (attemptsLoop env repo ks s)) = files s"
proof (induction ks arbitrary: s)
  case Nil
  show ?case by simp
next
  case (Cons k ks)
  have step: "repoDir (state_of (attemptBody env repo k s)) = repoDir s"
    "files (state_of (attemptBody env repo k s)) = files s"
    by (rule attemptBody_repoDir)+
  show ?case
  proof (cases "attemptBody env repo k s")
    case (Next s')
    with step Cons.IH [of s'] show ?thesis by simp
  qed (use step in simp_all)
qed

lemma finalVerification_keeps:
  "allBugs (state_of (finalVerification env repo s)) = allBugs s"
  "repoDir (state_of (finalVerification env repo s)) = repoDir s"
  "files (state_of (finalVerification env repo s)) = files s"
  by (simp_all add: finalVerification_def Let_def attemptCreatePR_keeps)

lemma forkRepo_token:
  "forkRepo tok fenv owner repo = Inr fr \<Longrightarrow> \<exists>t. getBotToken tok = Inr t"
  by (cases "getBotToken tok") (simp_all add: forkRepo_def)

lemma cloneRepo_ok:
  assumes "getBotToken tok = Inr t" and "parseGitHubUrl url = Inr repo"
  shows "fst (cloneRepo tok None url sid fo frn fs) = Inr (getSandboxDir sid)"
  using assms by (simp add: cloneRepo_def Let_def)

lemma cloneRepo_failed:
  "fst (cloneRepo tok (Some err) url sid fo frn fs) = Inl m \<Longrightarrow> getSandboxDir sid \<notin> snd (cloneRepo tok (Some err) url sid fo frn fs)"
  by (simp add: cloneRepo_def Let_def existsSync_def rmSync_def split: sum.splits if_splits)

lemma path_normalize_nonempty: "path_normalize p \<noteq> []"
  by (simp add: path_normalize_def Let_def)

lemma getSandboxDir_nonempty: "getSandboxDir sid \<noteq> []"
  by (simp add: getSandboxDir_def path_join_def path_normalize_nonempty)




lemma cleanupSandbox_others:
  "p \<noteq> getSandboxDir sid \<Longrightarrow> (p \<in> cleanupSandbox sid fs) = (p \<in> fs)"
  by (simp add: cleanupSandbox_def Let_def existsSync_def rmSync_def)

lemma cloneRepo_files:
  assumes "getBotToken tok = Inr t" and "parseGitHubUrl url = Inr repo"
  shows "snd (cloneRepo tok None url sid fo frn fs) = insert (getSandboxDir sid) fs"
  using assms by (auto simp: cloneRepo_def Let_def existsSync_def rmSync_def)

lemma healing_try_setup:
  assumes "parseGitHubUrl (repoUrl inp) = Inr repo"
    and "forkRepo (env_token env) (fork_calls env) (fst repo) (snd repo) = Inr fr"
    and "fr_success fr" and "clone_failure env = None"
  shows "healing_try env inp repo (initial_session (files0 env)) =
          (case branch_failure env of
             Some msg \<Rightarrow> Throw (''Failed to create branch: '' @ msg) (loop_start env inp fr)
           | None \<Rightarrow> after_loop env repo
                      (attemptsLoop env repo attempt_numbers (loop_start env inp fr)))"
proof -
  from forkRepo_token [OF assms(2)] obtain t where tok: "getBotToken (env_token env) = Inr t" ..
  let ?c = "cloneRepo (env_token env) None (repoUrl inp) (sessionId inp)
              (fr_forkOwner fr) (fr_forkRepo fr) (files0 env)"
  have cl: "fst ?c = Inr (getSandboxDir (sessionId inp))"
    using tok assms(1) by (rule cloneRepo_ok)
  have fl: "snd ?c = insert (getSandboxDir (sessionId inp)) (files0 env)"
    using tok assms(1) by (rule cloneRepo_files)
  have init: "files (initial_session (files0 env)) = files0 env"
    by (simp add: initial_session_def)
  show ?thesis
    by (simp add: healing_try_def Let_def assms(2-4) init cl fl loop_start_def after_loop_def
        split: option.split)
qed

lemma after_loop_keeps:
  "repoDir (state_of (after_loop env repo r)) = repoDir (state_of r)"
  "files (state_of (after_loop env repo r)) = files (state_of r)"
  "allBugs (state_of (after_loop env repo r)) = allBugs (state_of r)"
  by (cases r; simp add: after_loop_def finalVerification_keeps)+

lemma healing_try_repoDir:
  assumes "parseGitHubUrl (repoUrl inp) = Inr repo"
    and "forkRepo (env_token env) (fork_calls env) (fst repo) (snd repo) = Inr fr"
    and "fr_success fr" and "clone_failure env = None"
  shows "repoDir (state_of (healing_try env inp repo (initial_session (files0 env))))
           = getSandboxDir (sessionId inp)
       \<and> files (state_of (healing_try env inp repo (initial_session (files0 env))))
           = insert (getSandboxDir (sessionId inp)) (files0 env)"
  unfolding healing_try_setup [OF assms]
  by (cases "branch_failure env")
     (simp_all add: after_loop_keeps attemptsLoop_repoDir, simp_all add: loop_start_def)

lemma session_of_repoDir: "repoDir (session_of r) = repoDir (state_of r)"
  by (cases r) (simp_all add: session_of_def)

lemma session_of_files: "files (session_of r) = files (state_of r)"
  by (cases r) (simp_all add: session_of_def)



lemma createPullRequest_returns:
  "getBotToken tok = Inr t \<Longrightarrow> \<exists>r. createPullRequest tok penv owner repo = Inr r"
  by (simp add: createPullRequest_def)

lemma createPullRequest_single_returns:
  "getBotToken tok = Inr t \<Longrightarrow> \<exists>r. createPullRequest_single tok penv owner repo = Inr r"
  by (simp add: createPullRequest_single_def getBotToken_single_ok
      split: fetch_outcome.split json_result.split)

lemma attemptCreatePR_returns:
  assumes "getBotToken (env_token env) = Inr t"
  shows "\<exists>s'. attemptCreatePR env repo s = Return s' \<and> pr_requested s'
           \<and> status s' = status s \<and> score s' = score s \<and> allBugs s' = allBugs s
           \<and> attempts s' = attempts s \<and> currentAttempt s' = currentAttempt s"
proof -
  from createPullRequest_returns [OF assms]
  obtain r where "createPullRequest (env_token env) (pr_calls env) (fst repo) (snd repo) = Inr r" ..
  then show ?thesis by (simp add: attemptCreatePR_def)
qed

lemma attemptCreatePR_fallback_returns:
  assumes "getBotToken (env_token env) = Inr t"
  shows "\<exists>s'. attemptCreatePR_fallback env repo s = Return s' \<and> pr_requested s'
           \<and> status s' = status s \<and> score s' = score s \<and> allBugs s' = allBugs s"
proof -
  from createPullRequest_single_returns [OF assms]
  obtain r where "createPullRequest_single (env_token env) (pr_calls env) (fst repo) (snd repo) = Inr r" ..
  then show ?thesis by (simp add: attemptCreatePR_fallback_def)
qed

lemma bugsFixed_positive:
  "(bugsFixed (calculateScore bugs tp k c e) > 0) = list_ex fixed bugs"
  by (simp add: score_fields list_ex_iff filter_empty_conv)

lemma finalVerification_outcome:
  assumes "getBotToken (env_token env) = Inr t"
  shows "\<exists>s'. finalVerification env repo s = Return s'
     \<and> status s' = Some (if finalTestPassed env then completed
                         else if list_ex fixed (allBugs s) then partial_success else failed)
     \<and> pr_requested s' = (finalTestPassed env \<or> list_ex fixed (allBugs s) \<or> pr_requested s)
     \<and> allBugs s' = allBugs s
     \<and> score s' = Some (calculateScore (allBugs s) (finalTestPassed env) (int MAX_ATTEMPTS)
                          (int (finalCommitCount env)) (finalElapsedSec env))"
proof -
  let ?sc = "calculateScore (allBugs s) (finalTestPassed env) (int MAX_ATTEMPTS)
               (int (finalCommitCount env)) (finalElapsedSec env)"
  show ?thesis
  proof (cases "finalTestPassed env")
    case True
    from attemptCreatePR_returns [OF assms, of repo "s\<lparr>status := Some completed, score := Some ?sc\<rparr>"]
    show ?thesis using True by (auto simp: finalVerification_def Let_def)
  next
    case False
    show ?thesis
    proof (cases "list_ex fixed (allBugs s)")
      case True
      from attemptCreatePR_returns [OF assms, of repo "s\<lparr>status := Some partial_success, score := Some ?sc\<rparr>"]
      show ?thesis using True False
        by (auto simp: finalVerification_def Let_def bugsFixed_positive)
    next
      case nofix: False
      show ?thesis using nofix False
        by (simp add: finalVerification_def Let_def bugsFixed_positive)
    qed
  qed
qed

lemma finalVerification_fallback_outcome:
  assumes "getBotToken (env_token env) = Inr t"
  shows "\<exists>s'. finalVerification_fallback env repo s = Return s'
     \<and> status s' = Some (if finalTestPassed env then completed else failed)
     \<and> pr_requested s' = (finalTestPassed env \<or> list_ex fixed (allBugs s) \<or> pr_requested s)
     \<and> allBugs s' = allBugs s"
proof -
  let ?sc = "calculateScore (allBugs s) (finalTestPassed env) (int MAX_ATTEMPTS_fallback)
               (int (finalCommitCount env)) (finalElapsedSec env)"
  show ?thesis
  proof (cases "finalTestPassed env")
    case True
    from attemptCreatePR_fallback_returns [OF assms, of repo "s\<lparr>status := Some completed, score := Some ?sc\<rparr>"]
    show ?thesis using True by (auto simp: finalVerification_fallback_def Let_def)
  next
    case False
    show ?thesis
    proof (cases "list_ex fixed (allBugs s)")
      case True
      from attemptCreatePR_fallback_returns [OF assms, of repo "s\<lparr>status := Some failed, score := Some ?sc\<rparr>"]
      show ?thesis using True False
        by (auto simp: finalVerification_fallback_def Let_def bugsFixed_positive)
    next
      case nofix: False
      show ?thesis using nofix False
        by (simp add: finalVerification_fallback_def Let_def bugsFixed_positive)
    qed
  qed
qed

lemma is_fallthrough_simps [simp]:
  "is_fallthrough (Next s)" "is_fallthrough (Break s)"
  "\<not> is_fallthrough (Return s)" "\<not> is_fallthrough (Throw m s)"
  by (simp_all add: is_fallthrough_def)

lemma attemptCreatePR_not_fallthrough: "\<not> is_fallthrough (attemptCreatePR env repo s)"
  by (simp add: attemptCreatePR_def split: sum.split)

lemma finish_completed_not_fallthrough:
  "\<not> is_fallthrough (finish_completed env repo k e n s)"
  by (simp add: finish_completed_def Let_def attemptCreatePR_not_fallthrough)

lemma attemptBody_pr:
  "pr_requested (state_of (attemptBody env repo k s)) = pr_requested s
   \<or> \<not> is_fallthrough (attemptBody env repo k s)"
  by (simp add: attemptBody_def Let_def finish_completed_not_fallthrough split: sum.split)

lemma attemptBody_fallthrough:
  "is_fallthrough (attemptBody env repo k s) \<Longrightarrow>
     pr_requested (state_of (attemptBody env repo k s)) = pr_requested s"
  using attemptBody_pr [of env repo k s] by (elim disjE) simp_all

lemma attemptsLoop_fallthrough:
  "is_fallthrough (attemptsLoop env repo ks s) \<Longrightarrow>
     pr_requested (state_of (attemptsLoop env repo ks s)) = pr_requested s"
proof (induction ks arbitrary: s)
  case Nil
  show ?case by simp
next
  case (Cons k ks)
  show ?case
  proof (cases "attemptBody env repo k s")
    case (Next s')
    have "is_fallthrough (attemptBody env repo k s)" by (simp add: Next)
    then have a: "pr_requested s' = pr_requested s"
      using attemptBody_fallthrough [of env repo k s] by (simp add: Next)
    from Cons.prems have "is_fallthrough (attemptsLoop env repo ks s')" by (simp add: Next)
    then have "pr_requested (state_of (attemptsLoop env repo ks s')) = pr_requested s'"
      by (rule Cons.IH)
    with a show ?thesis by (simp add: Next)
  next
    case (Break s')
    have "is_fallthrough (attemptBody env repo k s)" by (simp add: Break)
    then have "pr_requested s' = pr_requested s"
      using attemptBody_fallthrough [of env repo k s] by (simp add: Break)
    then show ?thesis by (simp add: Break)
  next
    case (Return s')
    with Cons.prems show ?thesis by simp
  next
    case (Throw m s')
    with Cons.prems show ?thesis by simp
  qed
qed

lemma run_setup:
  assumes "parseGitHubUrl (repoUrl inp) = Inr repo"
    and "forkRepo (env_token env) (fork_calls env) (fst repo) (snd repo) = Inr fr"
    and "fr_success fr" and "clone_failure env = None" and "branch_failure env = None"
  shows "runHealingLoop env inp =
           (session_of (after_loop env repo
              (attemptsLoop env repo attempt_numbers (loop_start env inp fr))))
           \<lparr>files := files0 env - {getSandboxDir (sessionId inp)}\<rparr>"
proof -
  let ?r = "after_loop env repo (attemptsLoop env repo attempt_numbers (loop_start env inp fr))"
  have tr: "healing_try env inp repo (initial_session (files0 env)) = ?r"
    by (simp add: healing_try_setup [OF assms(1-4)] assms(5))
  have dir: "repoDir (session_of ?r) = getSandboxDir (sessionId inp)"
    and fl: "files (session_of ?r) = insert (getSandboxDir (sessionId inp)) (files0 env)"
    using healing_try_repoDir [OF assms(1-4)]
    unfolding tr session_of_repoDir session_of_files by simp_all
  have "cleanupSandbox (sessionId inp) (files (session_of ?r))
          = files0 env - {getSandboxDir (sessionId inp)}"
    unfolding fl by (simp add: cleanupSandbox_def Let_def existsSync_def rmSync_def)
  then show ?thesis
    by (simp add: runHealingLoop_def assms(1) tr Let_def dir getSandboxDir_nonempty)
qed

lemma first_attempt_passes:
  assumes "getBotToken (env_token env) = Inr t"
    and "\<not> timedOut_start (attempt_envs env 1)" and "test_passed (attempt_envs env 1)"
  shows "\<exists>s'. attemptsLoop env repo attempt_numbers s = Return s'
     \<and> status s' = Some completed \<and> allBugs s' = allBugs s
     \<and> attempts s' = attempts s @ [\<lparr> at_attempt = 1, at_status = attempt_passed, at_bugsFound = 0,
                                     at_bugsFixed = 0, at_commitSha = None,
                                     at_commitMessage = None \<rparr>]
     \<and> currentAttempt s' = 1 \<and> pr_requested s'
     \<and> score s' = Some (calculateScore (allBugs s) True 1
                          (int (commitCount (attempt_envs env 1)))
                          (elapsedSec (attempt_envs env 1)))"
proof -
  let ?e = "attempt_envs env 1"
  let ?rec = "\<lparr> at_attempt = 1, at_status = attempt_passed, at_bugsFound = 0,
                 at_bugsFixed = 0, at_commitSha = None, at_commitMessage = None \<rparr>"
  let ?s2 = "s\<lparr>currentAttempt := 1, attempts := attempts s @ [?rec],
               status := Some completed,
               score := Some (calculateScore (allBugs s) True 1 (int (commitCount ?e)) (elapsedSec ?e))\<rparr>"
  have body: "attemptBody env repo 1 s = attemptCreatePR env repo ?s2"
    using assms(2,3) by (simp add: attemptBody_def Let_def finish_completed_def)
  from attemptCreatePR_returns [OF assms(1), of repo ?s2]
  obtain s' where s': "attemptCreatePR env repo ?s2 = Return s'" "pr_requested s'"
    "status s' = status ?s2" "score s' = score ?s2" "allBugs s' = allBugs ?s2"
    "attempts s' = attempts ?s2" "currentAttempt s' = currentAttempt ?s2"
    by (elim exE conjE)
  have l: "attempt_numbers = 1 # [2 ..< Suc MAX_ATTEMPTS]"
    by (simp add: attempt_numbers_def MAX_ATTEMPTS_def upt_rec)
  have "attemptsLoop env repo attempt_numbers s = Return s'"
    unfolding l by (simp only: attemptsLoop.simps body s' flow.case)
  with s' show ?thesis by simp
qed

lemma score_first_pass:
  "finalScore (calculateScore [] True 1 c e)
     = max 0 (30 + (if e < 300 then 10 else 0) - (if c > 20 then c - 20 else 0))
   \<and> finalScore (calculateScore [] True 1 c e) \<le> 40"
  by (simp add: score_final base_of_def bonus_of_def)

text \<open>
  C2, as the claim has it, fails: in a session whose tests pass at the first run, after
  10 seconds and with no commit, the status is completed and no bug is recorded, and the
  final score is 40, not 80 or more.
\<close>

theorem first_run_score_is_40:
  "status (runHealingLoop first_pass_env demo_input) = Some completed
   \<and> allBugs (runHealingLoop first_pass_env demo_input) = []
   \<and> map_option finalScore (score (runHealingLoop first_pass_env demo_input)) = Some 40"
  by code_simp

text \<open>
  C3, as the claim has it, fails in the orchestrator with fallback: with a fixed bug in
  the list and a failing final test run, the session is finalized as failed, not as a
  partial success, and the pull request is attempted.
\<close>

theorem fallback_final_status_failed:
  "\<not> finalTestPassed first_pass_env \<and> list_ex fixed (allBugs one_fixed_session)
   \<and> status (state_of (finalVerification_fallback first_pass_env (''octo'', ''demo'') one_fixed_session))
       = Some failed
   \<and> pr_requested (state_of (finalVerification_fallback first_pass_env (''octo'', ''demo'') one_fixed_session))"
  by code_simp








lemma loop_start_fields:
  "allBugs (loop_start env inp fr) = []" "attempts (loop_start env inp fr) = []"
  "pr_requested (loop_start env inp fr) = False"
  by (simp_all add: loop_start_def initial_session_def)

lemma after_loop_fallthrough:
  "is_fallthrough r \<Longrightarrow> after_loop env repo r = finalVerification env repo (state_of r)"
  by (cases r) (simp_all add: after_loop_def)

text \<open>
  C2, amended.  When fork, clone and branch creation succeed and the test suite passes at
  the first test run, in attempt 1, the session is finalized as completed after that one
  attempt, with no bug recorded and the pull request attempted; the score is that of an
  empty bug list with passing tests and one attempt: 30 plus the speed bonus minus the
  commit penalty, not below 0, hence at most 40.
\<close>

theorem first_run_passes_amended:
  assumes "parseGitHubUrl (repoUrl inp) = Inr repo"
    and "forkRepo (env_token env) (fork_calls env) (fst repo) (snd repo) = Inr fr"
    and "fr_success fr" and "clone_failure env = None" and "branch_failure env = None"
    and "\<not> timedOut_start (attempt_envs env 1)" and "test_passed (attempt_envs env 1)"
  shows "status (runHealingLoop env inp) = Some completed
     \<and> allBugs (runHealingLoop env inp) = []
     \<and> attempts (runHealingLoop env inp)
         = [\<lparr> at_attempt = 1, at_status = attempt_passed, at_bugsFound = 0, at_bugsFixed = 0,
               at_commitSha = None, at_commitMessage = None \<rparr>]
     \<and> currentAttempt (runHealingLoop env inp) = 1
     \<and> pr_requested (runHealingLoop env inp)
     \<and> score (runHealingLoop env inp)
         = Some (calculateScore [] True 1 (int (commitCount (attempt_envs env 1)))
                   (elapsedSec (attempt_envs env 1)))
     \<and> finalScore (calculateScore [] True 1 (int (commitCount (attempt_envs env 1)))
                     (elapsedSec (attempt_envs env 1)))
         = max 0 (30 + (if elapsedSec (attempt_envs env 1) < 300 then 10 else 0)
                     - (if int (commitCount (attempt_envs env 1)) > 20
                        then int (commitCount (attempt_envs env 1)) - 20 else 0))
     \<and> finalScore (calculateScore [] True 1 (int (commitCount (attempt_envs env 1)))
                     (elapsedSec (attempt_envs env 1))) \<le> 40"
proof -
  from forkRepo_token [OF assms(2)] obtain t where tok: "getBotToken (env_token env) = Inr t" ..
  let ?L = "attemptsLoop env repo attempt_numbers (loop_start env inp fr)"
  from first_attempt_passes [OF tok assms(6,7), of repo "loop_start env inp fr"]
  obtain s' where L: "?L = Return s'" and st: "status s' = Some completed"
    and bugs: "allBugs s' = allBugs (loop_start env inp fr)"
    and att: "attempts s' = attempts (loop_start env inp fr)
                @ [\<lparr> at_attempt = 1, at_status = attempt_passed, at_bugsFound = 0,
                      at_bugsFixed = 0, at_commitSha = None, at_commitMessage = None \<rparr>]"
    and cur: "currentAttempt s' = 1" and pr: "pr_requested s'"
    and sc: "score s' = Some (calculateScore (allBugs (loop_start env inp fr)) True 1
                          (int (commitCount (attempt_envs env 1)))
                          (elapsedSec (attempt_envs env 1)))"
    by (elim exE conjE)
  have run: "runHealingLoop env inp = s'\<lparr>files := files0 env - {getSandboxDir (sessionId inp)}\<rparr>"
    unfolding run_setup [OF assms(1-5)] L by (simp add: after_loop_def session_of_def)
  note sf = score_first_pass [of "int (commitCount (attempt_envs env 1))" "elapsedSec (attempt_envs env 1)"]
  show ?thesis
    unfolding run using st bugs att cur pr sc sf by (simp add: loop_start_fields)
qed

theorem first_run_passes_amended_witness:
  "parseGitHubUrl (repoUrl demo_input) = Inr (''octo'', ''demo'')
   \<and> forkRepo (env_token first_pass_env) (fork_calls first_pass_env) (fst (''octo'', ''demo''))
        (snd (''octo'', ''demo'')) = Inr demo_fork_result
   \<and> fr_success demo_fork_result \<and> clone_failure first_pass_env = None
   \<and> branch_failure first_pass_env = None
   \<and> \<not> timedOut_start (attempt_envs first_pass_env 1)
   \<and> test_passed (attempt_envs first_pass_env 1)
   \<and> status (runHealingLoop first_pass_env demo_input) = Some completed
   \<and> allBugs (runHealingLoop first_pass_env demo_input) = []
   \<and> finalScore (calculateScore [] True 1 (int (commitCount (attempt_envs first_pass_env 1)))
                   (elapsedSec (attempt_envs first_pass_env 1))) \<le> 40"
proof -
  have h1: "parseGitHubUrl (repoUrl demo_input) = Inr (''octo'', ''demo'')" by code_simp
  have h2: "forkRepo (env_token first_pass_env) (fork_calls first_pass_env) (fst (''octo'', ''demo''))
        (snd (''octo'', ''demo'')) = Inr demo_fork_result" by code_simp
  have h3: "fr_success demo_fork_result" by code_simp
  have h4: "clone_failure first_pass_env = None" by code_simp
  have h5: "branch_failure first_pass_env = None" by code_simp
  have h6: "\<not> timedOut_start (attempt_envs first_pass_env 1)" by code_simp
  have h7: "test_passed (attempt_envs first_pass_env 1)" by code_simp
  note T = first_run_passes_amended [OF h1 h2 h3 h4 h5 h6 h7]
  note c1 = T [THEN conjunct1]
  note c2 = T [THEN conjunct2, THEN conjunct1]
  note c8 = T [THEN conjunct2, THEN conjunct2, THEN conjunct2, THEN conjunct2, THEN conjunct2,
               THEN conjunct2, THEN conjunct2]
  show ?thesis
    by (rule conjI [OF h1 conjI [OF h2 conjI [OF h3 conjI [OF h4 conjI [OF h5 conjI [OF h6
          conjI [OF h7 conjI [OF c1 conjI [OF c2 c8]]]]]]]]])
qed

lemma trackScanned_unfixed:
  "\<not> list_ex fixed bs \<Longrightarrow> \<not> list_ex fixed scanned \<Longrightarrow>
     \<not> list_ex fixed (fst (trackScanned bs new scanned))"
  by (induction scanned arbitrary: bs new) simp_all

lemma trackScanned_fallback_unfixed:
  "\<not> list_ex fixed bs \<Longrightarrow> \<not> list_ex fixed scanned \<Longrightarrow>
     \<not> list_ex fixed (fst (trackScanned_fallback bs new scanned))"
  by (induction scanned arbitrary: bs new) simp_all

lemma synthesizeBugs_unfixed: "\<not> list_ex fixed (synthesizeBugs u bs errs)"
  by (auto simp: synthesizeBugs_def bug_of_error_def list_ex_iff)

lemma pushUntracked_unfixed:
  "\<not> list_ex fixed bs \<Longrightarrow> \<not> list_ex fixed xs \<Longrightarrow> \<not> list_ex fixed (pushUntracked bs xs)"
  by (induction xs arbitrary: bs) simp_all

lemma markFixed_unapplied: "\<not> list_ex fx_applied rs \<Longrightarrow> markFixed bs rs k = bs"
  by (induction rs) simp_all

lemma attemptBody_unfixed:
  assumes nf: "no_fix_in_attempt (attempt_envs env k)" and un: "\<not> list_ex fixed (allBugs s)"
  shows "\<not> list_ex fixed (allBugs (state_of (attemptBody env repo k s)))"
proof (cases "scan_outcome (attempt_envs env k)")
  case (Inl msg)
  with un show ?thesis
    by (simp add: attemptBody_def Let_def finish_completed_keeps)
next
  case (Inr bugs)
  with nf have ub: "\<not> list_ex fixed bugs" by (simp add: no_fix_in_attempt_def)
  have t: "\<not> list_ex fixed (fst (trackScanned (allBugs s) [] bugs))"
    using un ub by (rule trackScanned_unfixed)
  have p: "\<not> list_ex fixed (pushUntracked (fst (trackScanned (allBugs s) [] bugs))
      (synthesizeBugs (uuids (attempt_envs env k)) (fst (trackScanned (allBugs s) [] bugs))
         (test_errors (attempt_envs env k))))"
    using t synthesizeBugs_unfixed by (rule pushUntracked_unfixed)
  show ?thesis
  proof (cases "fix_outcome (attempt_envs env k)")
    case fl: (Inl msg)
    with Inr un t p show ?thesis
      by (simp add: attemptBody_def Let_def finish_completed_keeps split: sum.split)
  next
    case fr: (Inr fixResult)
    with nf have "\<not> list_ex fx_applied (fx_results fixResult)"
      by (simp add: no_fix_in_attempt_def)
    then have m: "\<And>bs. markFixed bs (fx_results fixResult) k = bs"
      by (rule markFixed_unapplied)
    from Inr fr un t p show ?thesis
      by (simp add: attemptBody_def Let_def finish_completed_keeps m split: sum.split)
  qed
qed

lemma attemptsLoop_unfixed:
  assumes "list_all (\<lambda>k. no_fix_in_attempt (attempt_envs env k)) ks"
    and "\<not> list_ex fixed (allBugs s)"
  shows "\<not> list_ex fixed (allBugs (state_of (attemptsLoop env repo ks s)))"
  using assms
proof (induction ks arbitrary: s)
  case Nil
  then show ?case by simp
next
  case (Cons k ks)
  from Cons.prems have nk: "no_fix_in_attempt (attempt_envs env k)"
    and rest: "list_all (\<lambda>k. no_fix_in_attempt (attempt_envs env k)) ks" by simp_all
  have step: "\<not> list_ex fixed (allBugs (state_of (attemptBody env repo k s)))"
    using nk Cons.prems(2) by (rule attemptBody_unfixed)
  show ?case
  proof (cases "attemptBody env repo k s")
    case (Next s')
    with step have "\<not> list_ex fixed (allBugs s')" by simp
    with rest have "\<not> list_ex fixed (allBugs (state_of (attemptsLoop env repo ks s')))"
      by (rule Cons.IH)
    with Next show ?thesis by simp
  qed (use step in simp_all)
qed

lemma fallbackLoopBugs_unfixed:
  assumes "list_all (\<lambda>k. nothing_fixed_fallback (answers k)) ks"
    and "\<not> list_ex fixed bs"
  shows "\<not> list_ex fixed (fallbackLoopBugs answers ks bs)"
  using assms
proof (induction ks arbitrary: bs)
  case Nil
  then show ?case by simp
next
  case (Cons k ks)
  from Cons.prems have a: "\<not> list_ex fixed (fst (answers k))"
    and b: "\<not> list_ex fx_applied (snd (answers k))"
    and rest: "list_all (\<lambda>k. nothing_fixed_fallback (answers k)) ks"
    by (simp_all add: nothing_fixed_fallback_def)
  have "\<not> list_ex fixed (fst (trackScanned_fallback bs [] (fst (answers k))))"
    using Cons.prems(2) a by (rule trackScanned_fallback_unfixed)
  then have "\<not> list_ex fixed (fallbackAttemptBugs bs (fst (answers k)) (snd (answers k)) k)"
    by (simp add: fallbackAttemptBugs_def markFixed_unapplied [OF b])
  with rest have "\<not> list_ex fixed (fallbackLoopBugs answers ks
      (fallbackAttemptBugs bs (fst (answers k)) (snd (answers k)) k))"
    by (rule Cons.IH)
  then show ?case by simp
qed


lemma finalVerification_block:
  assumes "getBotToken (env_token env) = Inr t"
  shows "\<exists>s'. finalVerification env repo s = Return s'
     \<and> (finalTestPassed env \<longrightarrow> status s' = Some completed \<and> pr_requested s')
     \<and> (\<not> finalTestPassed env \<and> list_ex fixed (allBugs s)
            \<longrightarrow> status s' = Some partial_success \<and> pr_requested s')"
proof -
  from finalVerification_outcome [OF assms, of repo s]
  obtain s' where "finalVerification env repo s = Return s'"
    and "status s' = Some (if finalTestPassed env then completed
                         else if list_ex fixed (allBugs s) then partial_success else failed)"
    and "pr_requested s' = (finalTestPassed env \<or> list_ex fixed (allBugs s) \<or> pr_requested s)"
    by (elim exE conjE)
  then have "finalVerification env repo s = Return s'
     \<and> (finalTestPassed env \<longrightarrow> status s' = Some completed \<and> pr_requested s')
     \<and> (\<not> finalTestPassed env \<and> list_ex fixed (allBugs s)
            \<longrightarrow> status s' = Some partial_success \<and> pr_requested s')" by simp
  then show ?thesis by (rule exI)
qed

lemma finalVerification_fallback_block:
  assumes "getBotToken (env_token env) = Inr t"
  shows "\<exists>s'. finalVerification_fallback env repo s = Return s'
     \<and> (finalTestPassed env \<longrightarrow> status s' = Some completed \<and> pr_requested s')
     \<and> (\<not> finalTestPassed env \<longrightarrow> status s' = Some failed)
     \<and> (\<not> finalTestPassed env \<and> list_ex fixed (allBugs s) \<longrightarrow> pr_requested s')"
proof -
  from finalVerification_fallback_outcome [OF assms, of repo s]
  obtain s' where "finalVerification_fallback env repo s = Return s'"
    and "status s' = Some (if finalTestPassed env then completed else failed)"
    and "pr_requested s' = (finalTestPassed env \<or> list_ex fixed (allBugs s) \<or> pr_requested s)"
    by (elim exE conjE)
  then have "finalVerification_fallback env repo s = Return s'
     \<and> (finalTestPassed env \<longrightarrow> status s' = Some completed \<and> pr_requested s')
     \<and> (\<not> finalTestPassed env \<longrightarrow> status s' = Some failed)
     \<and> (\<not> finalTestPassed env \<and> list_ex fixed (allBugs s) \<longrightarrow> pr_requested s')" by simp
  then show ?thesis by (rule exI)
qed

lemma finalVerification_fallback_nothing_fixed:
  assumes "getBotToken (env_token env) = Inr t" and "\<not> finalTestPassed env"
    and "list_all (\<lambda>k. nothing_fixed_fallback (answers k)) attempt_numbers_fallback"
    and "allBugs s = fallbackLoopBugs answers attempt_numbers_fallback []"
  shows "\<exists>s'. finalVerification_fallback env repo s = Return s'
     \<and> status s' = Some failed \<and> pr_requested s' = pr_requested s"
proof -
  have "\<not> list_ex fixed (fallbackLoopBugs answers attempt_numbers_fallback [])"
    using assms(3) by (rule fallbackLoopBugs_unfixed) simp
  with assms(4) have un: "\<not> list_ex fixed (allBugs s)" by simp
  from finalVerification_fallback_outcome [OF assms(1), of repo s]
  obtain s' where "finalVerification_fallback env repo s = Return s'"
    and "status s' = Some (if finalTestPassed env then completed else failed)"
    and "pr_requested s' = (finalTestPassed env \<or> list_ex fixed (allBugs s) \<or> pr_requested s)"
    by (elim exE conjE)
  with un assms(2) have "finalVerification_fallback env repo s = Return s'
     \<and> status s' = Some failed \<and> pr_requested s' = pr_requested s" by simp
  then show ?thesis by (rule exI)
qed

lemma session_final_verification:
  assumes "parseGitHubUrl (repoUrl inp) = Inr repo"
    and "forkRepo (env_token env) (fork_calls env) (fst repo) (snd repo) = Inr fr"
    and "fr_success fr" and "clone_failure env = None" and "branch_failure env = None"
    and "is_fallthrough (attemptsLoop env repo attempt_numbers (loop_start env inp fr))"
  shows "(finalTestPassed env \<longrightarrow>
            status (runHealingLoop env inp) = Some completed \<and> pr_requested (runHealingLoop env inp))
     \<and> (\<not> finalTestPassed env \<and> list_ex fixed (allBugs (runHealingLoop env inp)) \<longrightarrow>
            status (runHealingLoop env inp) = Some partial_success
            \<and> pr_requested (runHealingLoop env inp))
     \<and> (\<not> finalTestPassed env
          \<and> list_all (\<lambda>k. no_fix_in_attempt (attempt_envs env k)) attempt_numbers \<longrightarrow>
            status (runHealingLoop env inp) = Some failed
            \<and> \<not> pr_requested (runHealingLoop env inp))"
proof -
  from forkRepo_token [OF assms(2)] obtain t where tok: "getBotToken (env_token env) = Inr t" ..
  let ?L = "attemptsLoop env repo attempt_numbers (loop_start env inp fr)"
  from finalVerification_outcome [OF tok, of repo "state_of ?L"]
  obtain s' where fv: "finalVerification env repo (state_of ?L) = Return s'"
    and st: "status s' = Some (if finalTestPassed env then completed
                         else if list_ex fixed (allBugs (state_of ?L)) then partial_success else failed)"
    and pr: "pr_requested s' = (finalTestPassed env \<or> list_ex fixed (allBugs (state_of ?L))
                                \<or> pr_requested (state_of ?L))"
    and bugs: "allBugs s' = allBugs (state_of ?L)"
    by (elim exE conjE)
  have nopr: "pr_requested (state_of ?L) = False"
    using attemptsLoop_fallthrough [OF assms(6)] by (simp add: loop_start_fields)
  have run: "runHealingLoop env inp = s'\<lparr>files := files0 env - {getSandboxDir (sessionId inp)}\<rparr>"
    unfolding run_setup [OF assms(1-5)] after_loop_fallthrough [OF assms(6)] fv
    by (simp add: session_of_def)
  have none: "\<not> list_ex fixed (allBugs (state_of ?L))"
    if "list_all (\<lambda>k. no_fix_in_attempt (attempt_envs env k)) attempt_numbers"
    using that by (rule attemptsLoop_unfixed) (simp add: loop_start_fields)
  show ?thesis
    unfolding run using st pr bugs nopr none by simp
qed

text \<open>
  C3, amended.  When the loop has run out of attempts or was left by \<open>break\<close>, the final
  test run decides.  If it passes, the session is finalized as completed and the pull
  request is attempted, in both orchestrators.  If it fails, in the fork-required
  orchestrator: a session whose bug list holds a fixed bug is finalized as a partial
  success and the pull request is attempted; a session in which no attempt fixes
  anything (the scanner reports no bug as fixed already, the fix engineer applies no fix)
  is finalized as failed and no pull request is attempted.  If it fails, in the
  orchestrator with fallback: the session is finalized as failed; the pull request is
  attempted when the bug list holds a fixed bug, and is not attempted when no attempt of
  the loop fixes anything.  The final blocks need the bot token only; the statement on
  whole sessions is that of the fork-required orchestrator after fork, clone and branch.
\<close>

theorem final_verification_decides:
  "(getBotToken (env_token env) = Inr t \<longrightarrow>
      (\<exists>s'. finalVerification env repo s = Return s'
          \<and> (finalTestPassed env \<longrightarrow> status s' = Some completed \<and> pr_requested s')
          \<and> (\<not> finalTestPassed env \<and> list_ex fixed (allBugs s)
                 \<longrightarrow> status s' = Some partial_success \<and> pr_requested s'))
      \<and> (\<exists>s'. finalVerification_fallback env repo s = Return s'
          \<and> (finalTestPassed env \<longrightarrow> status s' = Some completed \<and> pr_requested s')
          \<and> (\<not> finalTestPassed env \<longrightarrow> status s' = Some failed)
          \<and> (\<not> finalTestPassed env \<and> list_ex fixed (allBugs s) \<longrightarrow> pr_requested s')))
   \<and> (getBotToken (env_token env) = Inr t \<and> \<not> finalTestPassed env
        \<and> list_all (\<lambda>k. nothing_fixed_fallback (answers k)) attempt_numbers_fallback
        \<and> allBugs s = fallbackLoopBugs answers attempt_numbers_fallback [] \<longrightarrow>
      (\<exists>s'. finalVerification_fallback env repo s = Return s'
          \<and> status s' = Some failed \<and> pr_requested s' = pr_requested s))
   \<and> (parseGitHubUrl (repoUrl inp) = Inr repo
        \<and> forkRepo (env_token env) (fork_calls env) (fst repo) (snd repo) = Inr fr
        \<and> fr_success fr \<and> clone_failure env = None \<and> branch_failure env = None
        \<and> is_fallthrough (attemptsLoop env repo attempt_numbers (loop_start env inp fr)) \<longrightarrow>
      (finalTestPassed env \<longrightarrow>
          status (runHealingLoop env inp) = Some completed \<and> pr_requested (runHealingLoop env inp))
      \<and> (\<not> finalTestPassed env \<and> list_ex fixed (allBugs (runHealingLoop env inp)) \<longrightarrow>
          status (runHealingLoop env inp) = Some partial_success
          \<and> pr_requested (runHealingLoop env inp))
      \<and> (\<not> finalTestPassed env
           \<and> list_all (\<lambda>k. no_fix_in_attempt (attempt_envs env k)) attempt_numbers \<longrightarrow>
          status (runHealingLoop env inp) = Some failed
          \<and> \<not> pr_requested (runHealingLoop env inp)))"
proof (intro conjI impI)
  assume tok: "getBotToken (env_token env) = Inr t"
  from tok show "\<exists>s'. finalVerification env repo s = Return s'
          \<and> (finalTestPassed env \<longrightarrow> status s' = Some completed \<and> pr_requested s')
          \<and> (\<not> finalTestPassed env \<and> list_ex fixed (allBugs s)
                 \<longrightarrow> status s' = Some partial_success \<and> pr_requested s')"
    by (rule finalVerification_block)
  from tok show "\<exists>s'. finalVerification_fallback env repo s = Return s'
          \<and> (finalTestPassed env \<longrightarrow> status s' = Some completed \<and> pr_requested s')
          \<and> (\<not> finalTestPassed env \<longrightarrow> status s' = Some failed)
          \<and> (\<not> finalTestPassed env \<and> list_ex fixed (allBugs s) \<longrightarrow> pr_requested s')"
    by (rule finalVerification_fallback_block)
next
  assume "getBotToken (env_token env) = Inr t \<and> \<not> finalTestPassed env
        \<and> list_all (\<lambda>k. nothing_fixed_fallback (answers k)) attempt_numbers_fallback
        \<and> allBugs s = fallbackLoopBugs answers attempt_numbers_fallback []"
  then show "\<exists>s'. finalVerification_fallback env repo s = Return s'
          \<and> status s' = Some failed \<and> pr_requested s' = pr_requested s"
    by (elim conjE) (rule finalVerification_fallback_nothing_fixed)
next
  assume h: "parseGitHubUrl (repoUrl inp) = Inr repo
        \<and> forkRepo (env_token env) (fork_calls env) (fst repo) (snd repo) = Inr fr
        \<and> fr_success fr \<and> clone_failure env = None \<and> branch_failure env = None
        \<and> is_fallthrough (attemptsLoop env repo attempt_numbers (loop_start env inp fr))"
  then have S: "(finalTestPassed env \<longrightarrow>
            status (runHealingLoop env inp) = Some completed \<and> pr_requested (runHealingLoop env inp))
     \<and> (\<not> finalTestPassed env \<and> list_ex fixed (allBugs (runHealingLoop env inp)) \<longrightarrow>
            status (runHealingLoop env inp) = Some partial_success
            \<and> pr_requested (runHealingLoop env inp))
     \<and> (\<not> finalTestPassed env
          \<and> list_all (\<lambda>k. no_fix_in_attempt (attempt_envs env k)) attempt_numbers \<longrightarrow>
            status (runHealingLoop env inp) = Some failed
            \<and> \<not> pr_requested (runHealingLoop env inp))"
    by (elim conjE) (rule session_final_verification)
  {
    assume "finalTestPassed env"
    with S show "status (runHealingLoop env inp) = Some completed" by simp
  }
  {
    assume "finalTestPassed env"
    with S show "pr_requested (runHealingLoop env inp)" by simp
  }
  {
    assume "\<not> finalTestPassed env \<and> list_ex fixed (allBugs (runHealingLoop env inp))"
    with S show "status (runHealingLoop env inp) = Some partial_success" by simp
  }
  {
    assume "\<not> finalTestPassed env \<and> list_ex fixed (allBugs (runHealingLoop env inp))"
    with S show "pr_requested (runHealingLoop env inp)" by simp
  }
  {
    assume "\<not> finalTestPassed env
           \<and> list_all (\<lambda>k. no_fix_in_attempt (attempt_envs env k)) attempt_numbers"
    with S show "status (runHealingLoop env inp) = Some failed" by simp
  }
  {
    assume "\<not> finalTestPassed env
           \<and> list_all (\<lambda>k. no_fix_in_attempt (attempt_envs env k)) attempt_numbers"
    with S show "\<not> pr_requested (runHealingLoop env inp)" by simp
  }
qed


text \<open>
  The theorem on three sessions of the fork-required orchestrator (one fix recorded and
  the final test run failing; the same with the final test run passing; no fix applied
  in three attempts) and on the final block of the orchestrator with fallback, also
  where the fork was refused.
\<close>

theorem final_verification_decides_witness:
  "(getBotToken (env_token partial_env) = Inr ''ghp_token'' \<and> \<not> finalTestPassed partial_env
      \<and> list_ex fixed (allBugs one_fixed_session)
      \<and> status (state_of (finalVerification partial_env (''octo'', ''demo'') one_fixed_session))
            = Some partial_success
      \<and> pr_requested (state_of (finalVerification partial_env (''octo'', ''demo'') one_fixed_session))
      \<and> status (state_of (finalVerification_fallback partial_env (''octo'', ''demo'') one_fixed_session))
            = Some failed
      \<and> pr_requested (state_of (finalVerification_fallback partial_env (''octo'', ''demo'')
            one_fixed_session)))
   \<and> (parseGitHubUrl (repoUrl demo_input) = Inr (''octo'', ''demo'')
      \<and> forkRepo (env_token partial_env) (fork_calls partial_env) (fst (''octo'', ''demo''))
           (snd (''octo'', ''demo'')) = Inr demo_fork_result
      \<and> fr_success demo_fork_result \<and> clone_failure partial_env = None
      \<and> branch_failure partial_env = None
      \<and> is_fallthrough (attemptsLoop partial_env (''octo'', ''demo'') attempt_numbers
           (loop_start partial_env demo_input demo_fork_result))
      \<and> list_ex fixed (allBugs (runHealingLoop partial_env demo_input))
      \<and> status (runHealingLoop partial_env demo_input) = Some partial_success
      \<and> pr_requested (runHealingLoop partial_env demo_input))
   \<and> (getBotToken (env_token passed_final_env) = Inr ''ghp_token'' \<and> finalTestPassed passed_final_env
      \<and> status (state_of (finalVerification passed_final_env (''octo'', ''demo'') one_fixed_session))
            = Some completed
      \<and> status (state_of (finalVerification_fallback passed_final_env (''octo'', ''demo'')
            one_fixed_session)) = Some completed
      \<and> is_fallthrough (attemptsLoop passed_final_env (''octo'', ''demo'') attempt_numbers
           (loop_start passed_final_env demo_input demo_fork_result))
      \<and> status (runHealingLoop passed_final_env demo_input) = Some completed
      \<and> pr_requested (runHealingLoop passed_final_env demo_input))
   \<and> (\<not> finalTestPassed no_fix_env
      \<and> list_all (\<lambda>k. no_fix_in_attempt (attempt_envs no_fix_env k)) attempt_numbers
      \<and> is_fallthrough (attemptsLoop no_fix_env (''octo'', ''demo'') attempt_numbers
           (loop_start no_fix_env demo_input demo_fork_result))
      \<and> status (runHealingLoop no_fix_env demo_input) = Some failed
      \<and> \<not> pr_requested (runHealingLoop no_fix_env demo_input)
      \<and> list_all (\<lambda>k. nothing_fixed_fallback (no_fix_answers k)) attempt_numbers_fallback
      \<and> allBugs no_fix_session = fallbackLoopBugs no_fix_answers attempt_numbers_fallback []
      \<and> status (state_of (finalVerification_fallback no_fix_env (''octo'', ''demo'') no_fix_session))
            = Some failed
      \<and> pr_requested (state_of (finalVerification_fallback no_fix_env (''octo'', ''demo'')
            no_fix_session)) = pr_requested no_fix_session)
   \<and> (map_sum id fr_success
          (forkRepo_single (env_token refused_fork_env) (fork_calls refused_fork_env) ''octo'' ''demo'')
        = Inr False
      \<and> getBotToken (env_token refused_fork_env) = Inr ''ghp_token''
      \<and> \<not> finalTestPassed refused_fork_env
      \<and> status (state_of (finalVerification_fallback refused_fork_env (''octo'', ''demo'')
            one_fixed_session)) = Some failed
      \<and> pr_requested (state_of (finalVerification_fallback refused_fork_env (''octo'', ''demo'')
            one_fixed_session)))"
proof -
  have h1: "parseGitHubUrl (repoUrl demo_input) = Inr (''octo'', ''demo'')" by code_simp
  have h3: "fr_success demo_fork_result" by code_simp

  have tokA: "getBotToken (env_token partial_env) = Inr ''ghp_token''" by code_simp
  have nfA: "\<not> finalTestPassed partial_env" by code_simp
  have fxA: "list_ex fixed (allBugs one_fixed_session)" by code_simp
  have h2A: "forkRepo (env_token partial_env) (fork_calls partial_env) (fst (''octo'', ''demo''))
        (snd (''octo'', ''demo'')) = Inr demo_fork_result" by code_simp
  have h4A: "clone_failure partial_env = None" by code_simp
  have h5A: "branch_failure partial_env = None" by code_simp
  have h6A: "is_fallthrough (attemptsLoop partial_env (''octo'', ''demo'') attempt_numbers
        (loop_start partial_env demo_input demo_fork_result))" by code_simp
  have fxR: "list_ex fixed (allBugs (runHealingLoop partial_env demo_input))" by code_simp
  note TA = final_verification_decides [where env = partial_env and s = one_fixed_session
      and repo = "(''octo'', ''demo'')" and inp = demo_input and fr = demo_fork_result
      and t = "''ghp_token''" and answers = no_fix_answers]
  note blocksA = TA [THEN conjunct1, THEN mp, OF tokA]
  from blocksA [THEN conjunct1] nfA fxA
  have a1: "status (state_of (finalVerification partial_env (''octo'', ''demo'') one_fixed_session))
            = Some partial_success"
    and a2: "pr_requested (state_of (finalVerification partial_env (''octo'', ''demo'') one_fixed_session))"
    by auto
  from blocksA [THEN conjunct2] nfA fxA
  have a3: "status (state_of (finalVerification_fallback partial_env (''octo'', ''demo'') one_fixed_session))
            = Some failed"
    and a4: "pr_requested (state_of (finalVerification_fallback partial_env (''octo'', ''demo'')
            one_fixed_session))"
    by auto
  note sessA = TA [THEN conjunct2, THEN conjunct2, THEN mp,
      OF conjI [OF h1 conjI [OF h2A conjI [OF h3 conjI [OF h4A conjI [OF h5A h6A]]]]]]
  from sessA [THEN conjunct2, THEN conjunct1, THEN mp, OF conjI [OF nfA fxR]]
  have a5: "status (runHealingLoop partial_env demo_input) = Some partial_success"
    and a6: "pr_requested (runHealingLoop partial_env demo_input)"
    by simp_all

  have tokB: "getBotToken (env_token passed_final_env) = Inr ''ghp_token''" by code_simp
  have pB: "finalTestPassed passed_final_env" by code_simp
  have h2B: "forkRepo (env_token passed_final_env) (fork_calls passed_final_env) (fst (''octo'', ''demo''))
        (snd (''octo'', ''demo'')) = Inr demo_fork_result" by code_simp
  have h4B: "clone_failure passed_final_env = None" by code_simp
  have h5B: "branch_failure passed_final_env = None" by code_simp
  have h6B: "is_fallthrough (attemptsLoop passed_final_env (''octo'', ''demo'') attempt_numbers
        (loop_start passed_final_env demo_input demo_fork_result))" by code_simp
  note TB = final_verification_decides [where env = passed_final_env and s = one_fixed_session
      and repo = "(''octo'', ''demo'')" and inp = demo_input and fr = demo_fork_result
      and t = "''ghp_token''" and answers = no_fix_answers]
  note blocksB = TB [THEN conjunct1, THEN mp, OF tokB]
  from blocksB [THEN conjunct1] pB
  have b1: "status (state_of (finalVerification passed_final_env (''octo'', ''demo'') one_fixed_session))
            = Some completed"
    by auto
  from blocksB [THEN conjunct2] pB
  have b2: "status (state_of (finalVerification_fallback passed_final_env (''octo'', ''demo'')
            one_fixed_session)) = Some completed"
    by auto
  note sessB = TB [THEN conjunct2, THEN conjunct2, THEN mp,
      OF conjI [OF h1 conjI [OF h2B conjI [OF h3 conjI [OF h4B conjI [OF h5B h6B]]]]]]
  from sessB [THEN conjunct1, THEN mp, OF pB]
  have b3: "status (runHealingLoop passed_final_env demo_input) = Some completed"
    and b4: "pr_requested (runHealingLoop passed_final_env demo_input)"
    by simp_all

  have tokC: "getBotToken (env_token no_fix_env) = Inr ''ghp_token''" by code_simp
  have nfC: "\<not> finalTestPassed no_fix_env" by code_simp
  have allC: "list_all (\<lambda>k. no_fix_in_attempt (attempt_envs no_fix_env k)) attempt_numbers"
    by code_simp
  have h2C: "forkRepo (env_token no_fix_env) (fork_calls no_fix_env) (fst (''octo'', ''demo''))
        (snd (''octo'', ''demo'')) = Inr demo_fork_result" by code_simp
  have h4C: "clone_failure no_fix_env = None" by code_simp
  have h5C: "branch_failure no_fix_env = None" by code_simp
  have h6C: "is_fallthrough (attemptsLoop no_fix_env (''octo'', ''demo'') attempt_numbers
        (loop_start no_fix_env demo_input demo_fork_result))" by code_simp
  have ansC: "list_all (\<lambda>k. nothing_fixed_fallback (no_fix_answers k)) attempt_numbers_fallback"
    by code_simp
  have bugsC: "allBugs no_fix_session = fallbackLoopBugs no_fix_answers attempt_numbers_fallback []"
    by (simp add: no_fix_session_def)
  note TC = final_verification_decides [where env = no_fix_env and s = no_fix_session
      and repo = "(''octo'', ''demo'')" and inp = demo_input and fr = demo_fork_result
      and t = "''ghp_token''" and answers = no_fix_answers]
  from TC [THEN conjunct2, THEN conjunct1, THEN mp,
      OF conjI [OF tokC conjI [OF nfC conjI [OF ansC bugsC]]]]
  have c1: "status (state_of (finalVerification_fallback no_fix_env (''octo'', ''demo'') no_fix_session))
            = Some failed"
    and c2: "pr_requested (state_of (finalVerification_fallback no_fix_env (''octo'', ''demo'')
            no_fix_session)) = pr_requested no_fix_session"
    by auto
  note sessC = TC [THEN conjunct2, THEN conjunct2, THEN mp,
      OF conjI [OF h1 conjI [OF h2C conjI [OF h3 conjI [OF h4C conjI [OF h5C h6C]]]]]]
  from sessC [THEN conjunct2, THEN conjunct2, THEN mp, OF conjI [OF nfC allC]]
  have c3: "status (runHealingLoop no_fix_env demo_input) = Some failed"
    and c4: "\<not> pr_requested (runHealingLoop no_fix_env demo_input)"
    by simp_all

  have rfD: "map_sum id fr_success
          (forkRepo_single (env_token refused_fork_env) (fork_calls refused_fork_env) ''octo'' ''demo'')
        = Inr False" by code_simp
  have tokD: "getBotToken (env_token refused_fork_env) = Inr ''ghp_token''" by code_simp
  have nfD: "\<not> finalTestPassed refused_fork_env" by code_simp
  note TD = final_verification_decides [where env = refused_fork_env and s = one_fixed_session
      and repo = "(''octo'', ''demo'')" and inp = demo_input and fr = demo_fork_result
      and t = "''ghp_token''" and answers = no_fix_answers]
  from TD [THEN conjunct1, THEN mp, OF tokD, THEN conjunct2] nfD fxA
  have d1: "status (state_of (finalVerification_fallback refused_fork_env (''octo'', ''demo'')
            one_fixed_session)) = Some failed"
    and d2: "pr_requested (state_of (finalVerification_fallback refused_fork_env (''octo'', ''demo'')
            one_fixed_session))"
    by auto

  show ?thesis
    by (intro conjI tokA nfA fxA a1 a2 a3 a4 h1 h2A h3 h4A h5A h6A fxR a5 a6
        tokB pB b1 b2 h6B b3 b4 nfC allC h6C c3 c4 ansC bugsC c1 c2 rfD tokD nfD d1 d2)
qed

text \<open>
  A fix that is applied to a bug identified again under a new identifier is not recorded.
  Attempt 1 makes a bug \<open>u1\<close> from the test error at \<open>src/x.ts:12\<close>; attempts 2 and 3 make it
  again as \<open>u2\<close>, which is not pushed since the location is tracked, and the fix for \<open>u2\<close>
  is applied and committed; the final test run fails.  No bug of the list is stamped:
  the session ends failed and no pull request is attempted, while the attempt records
  count the fix.  The statement of C3 above says nothing of such a session.
\<close>

lemma unrecorded_fix_ends_failed:
  "status (runHealingLoop unrecorded_fix_env demo_input) = Some failed
   \<and> \<not> pr_requested (runHealingLoop unrecorded_fix_env demo_input)
   \<and> map bug_id (allBugs (runHealingLoop unrecorded_fix_env demo_input)) = [''u1'']
   \<and> map fixed (allBugs (runHealingLoop unrecorded_fix_env demo_input)) = [False]
   \<and> map at_bugsFixed (attempts (runHealingLoop unrecorded_fix_env demo_input)) = [0, 1, 1]
   \<and> map at_commitSha (attempts (runHealingLoop unrecorded_fix_env demo_input))
       = [None, Some ''abc1234'', Some ''abc1234'']"
  by code_simp

end
